theory Spec2Isabelle
  imports Main "HOL-Library.Sublist"
begin

section \<open>Python text, slices and values\<close>

text \<open>
  A Python \<open>str\<close> is a sequence of Unicode code points and \<open>len\<close> counts code points,
  so text is modelled as a list of code points. \<open>u\<close> turns an ASCII literal into such a
  list; the pictographs of the source's literals are written as their code points.
  Whitespace is Python's \<open>str.isspace\<close> in full, which is also the class \<open>\s\<close> of
  the regular expressions. Case mapping and the class \<open>\w\<close> depend on Python's
  Unicode tables, which the functions below take as a parameter.
\<close>

type_synonym pystr = "nat list"

definition u :: "string \<Rightarrow> pystr" where
  "u s = map of_char s"

definition is_space :: "nat \<Rightarrow> bool" where
  "is_space c \<longleftrightarrow>
     (9 \<le> c \<and> c \<le> 13) \<or> (28 \<le> c \<and> c \<le> 32) \<or> c = 133 \<or> c = 160 \<or> c = 5760 \<or>
     (8192 \<le> c \<and> c \<le> 8202) \<or> c = 8232 \<or> c = 8233 \<or> c = 8239 \<or> c = 8287 \<or> c = 12288"

text \<open>
  The ASCII part of Python's tables: the word characters among the ASCII characters,
  and the case mappings of ASCII text.
\<close>

definition is_word :: "nat \<Rightarrow> bool" where
  "is_word c \<longleftrightarrow> (97 \<le> c \<and> c \<le> 122) \<or> (65 \<le> c \<and> c \<le> 90) \<or> (48 \<le> c \<and> c \<le> 57) \<or> c = 95"

definition lower_char :: "nat \<Rightarrow> nat" where
  "lower_char c = (if 65 \<le> c \<and> c \<le> 90 then c + 32 else c)"

definition upper_char :: "nat \<Rightarrow> nat" where
  "upper_char c = (if 97 \<le> c \<and> c \<le> 122 then c - 32 else c)"

definition lower :: "pystr \<Rightarrow> pystr" where
  "lower s = map lower_char s"

text \<open>\<open>str.capitalize\<close> on ASCII text: first character upper case, the rest lower case.\<close>

definition capitalize :: "pystr \<Rightarrow> pystr" where
  "capitalize s = (case s of [] \<Rightarrow> [] | c # cs \<Rightarrow> upper_char c # lower cs)"

text \<open>
  Python's Unicode tables, as far as the source uses them: \<open>str.lower\<close>,
  \<open>str.capitalize\<close>, and the word characters of \<open>\w\<close> and \<open>\b\<close>. Lower-casing
  may change the length of a text, so it is a function on texts.
\<close>

record unicode_db =
  str_lower :: "pystr \<Rightarrow> pystr"
  str_capitalize :: "pystr \<Rightarrow> pystr"
  re_word :: "nat \<Rightarrow> bool"

text \<open>
  What every version of the tables does on ASCII: an ASCII text is mapped as by the
  ASCII functions above, and an ASCII character is a word character exactly when it is
  a letter, a digit or the underscore.
\<close>

definition agrees_on_ascii :: "unicode_db \<Rightarrow> bool" where
  "agrees_on_ascii U \<longleftrightarrow>
     (\<forall>s. (\<forall>c\<in>set s. c < 128) \<longrightarrow>
          str_lower U s = lower s \<and> str_capitalize U s = capitalize s) \<and>
     (\<forall>c<128. re_word U c = is_word c)"

text \<open>The tables cut down to ASCII, for running the functions on ASCII inputs.\<close>

definition ascii_tables :: unicode_db where
  "ascii_tables = \<lparr> str_lower = lower, str_capitalize = capitalize, re_word = is_word \<rparr>"

text \<open>\<open>str.strip()\<close> removes leading and trailing whitespace.\<close>

definition strip :: "pystr \<Rightarrow> pystr" where
  "strip s = rev (dropWhile is_space (rev (dropWhile is_space s)))"

text \<open>\<open>sub in s\<close> on strings: \<open>sub\<close> occurs in \<open>s\<close> as a contiguous block.\<close>

fun contains :: "'a list \<Rightarrow> 'a list \<Rightarrow> bool" where
  "contains sub [] = (sub = [])"
| "contains sub (c # cs) = (prefix sub (c # cs) \<or> contains sub cs)"

text \<open>\<open>any(w in s for w in ws)\<close>.\<close>

definition any_in :: "'a list list \<Rightarrow> 'a list \<Rightarrow> bool" where
  "any_in ws s = list_ex (\<lambda>w. contains w s) ws"

text \<open>
  \<open>s.split(sep)\<close> for a non-empty separator: the pieces between the leftmost
  non-overlapping occurrences of \<open>sep\<close>.
\<close>

function split_sep :: "'a list \<Rightarrow> 'a list \<Rightarrow> 'a list list" where
  "split_sep sep s =
     (if s = [] then [] # []
      else if sep \<noteq> [] \<and> prefix sep s then [] # split_sep sep (drop (length sep) s)
      else (case split_sep sep (tl s) of
              p # ps \<Rightarrow> (hd s # p) # ps
            | [] \<Rightarrow> [hd s] # []))"
  by pat_completeness auto
termination
  by (relation "measure (\<lambda>(sep, s). length s)") auto

declare split_sep.simps [simp del]

text \<open>\<open>s.rsplit(c, 1)[0]\<close>: the part before the last \<open>c\<close>, all of \<open>s\<close> when there is none.\<close>

definition rsplit1_head :: "'a \<Rightarrow> 'a list \<Rightarrow> 'a list" where
  "rsplit1_head c s =
     (if c \<in> set s then rev (tl (dropWhile (\<lambda>x. x \<noteq> c) (rev s))) else s)"

text \<open>
  The slices \<open>s[:n]\<close> and \<open>s[i:]\<close> for any integer bound: a negative bound counts from
  the end, and every bound is clipped to the sequence.
\<close>

definition slice_to :: "int \<Rightarrow> 'a list \<Rightarrow> 'a list" where
  "slice_to n s = (if 0 \<le> n then take (nat n) s else take (nat (int (length s) + n)) s)"

definition slice_from :: "int \<Rightarrow> 'a list \<Rightarrow> 'a list" where
  "slice_from i s = (if 0 \<le> i then drop (nat i) s else drop (nat (int (length s) + i)) s)"

text \<open>
  The values a caller can pass where the source expects a string: request headers and
  JSON bodies deliver strings, nothing, numbers or lists. Lists are not hashable, so a
  dictionary lookup with one raises \<open>TypeError\<close>; the others are.
\<close>

datatype pyval = PStr pystr | PNone | PInt int | PList "pyval list"

datatype py_error = TypeError | OverflowError

fun hashable :: "pyval \<Rightarrow> bool" where
  "hashable (PList _) = False"
| "hashable _ = True"

fun truthy :: "pyval \<Rightarrow> bool" where
  "truthy (PStr s) = (s \<noteq> [])"
| "truthy PNone = False"
| "truthy (PInt i) = (i \<noteq> 0)"
| "truthy (PList xs) = (xs \<noteq> [])"

text \<open>
  A \<open>datetime\<close> is its number of microseconds since 1970-01-01 00:00:00; a
  \<open>timedelta\<close> is a number of microseconds. The datetimes reach from
  0001-01-01 00:00:00 to 9999-12-31 23:59:59.999999, and arithmetic that leaves this
  range raises \<open>OverflowError\<close>.
\<close>

type_synonym time = int

definition seconds :: "int \<Rightarrow> time" where
  "seconds n = n * 1000000"

definition minutes :: "int \<Rightarrow> time" where
  "minutes n = seconds (60 * n)"

definition hours :: "int \<Rightarrow> time" where
  "hours n = minutes (60 * n)"

definition datetime_min :: time where
  "datetime_min = seconds (- 62135596800)"

definition datetime_max :: time where
  "datetime_max = seconds 253402300800 - 1"

section \<open>Configuration\<close>

record config =
  GOOGLE_API_KEY :: pystr
  MAX_HISTORY_ENTRIES :: int
  API_TIMEOUT :: int
  SESSION_TIMEOUT_HOURS :: int
  RATE_LIMIT_PER_MINUTE :: int
  MAX_MESSAGE_LENGTH :: int

text \<open>The defaults of the source; the API key comes from the process environment.\<close>

definition default_config :: "pystr \<Rightarrow> config" where
  "default_config key =
     \<lparr> GOOGLE_API_KEY = key, MAX_HISTORY_ENTRIES = 1000, API_TIMEOUT = 10,
       SESSION_TIMEOUT_HOURS = 24, RATE_LIMIT_PER_MINUTE = 60, MAX_MESSAGE_LENGTH = 2000 \<rparr>"

section \<open>HistoryManager\<close>

text \<open>
  One history entry. The source stores the time of the entry three times, formatted to
  the second; the model keeps the time itself. The elapsed response time is kept in
  hundredths of a second, the resolution of the source's two-decimal format.
\<close>

record history_entry =
  he_id :: pystr
  he_timestamp :: time
  he_user :: pystr
  he_bot :: pystr
  he_session_id :: pystr
  he_input_method :: pystr
  he_response_time :: int

text \<open>
  The arguments of one call of \<open>add_conversation\<close>, together with the two values the
  call draws from its environment: the fresh uuid and the clock.
\<close>

record add_call =
  ac_uuid :: pystr
  ac_now :: time
  ac_user_msg :: pystr
  ac_bot_reply :: pystr
  ac_session_id :: pystr
  ac_input_method :: pystr
  ac_user_ip :: pystr
  ac_response_time :: int

definition make_entry :: "add_call \<Rightarrow> history_entry" where
  "make_entry c =
     \<lparr> he_id = ac_uuid c, he_timestamp = ac_now c, he_user = strip (ac_user_msg c),
       he_bot = strip (ac_bot_reply c), he_session_id = ac_session_id c,
       he_input_method = ac_input_method c, he_response_time = ac_response_time c \<rparr>"

text \<open>
  \<open>add_conversation\<close>: append the entry, then drop the head once if the log is longer
  than the configured maximum. Returns the entry and the new log.
\<close>

definition add_conversation ::
  "config \<Rightarrow> add_call \<Rightarrow> history_entry list \<Rightarrow> history_entry \<times> history_entry list" where
  "add_conversation cfg c log =
     (let entry = make_entry c;
          log1 = log @ [entry];
          log2 = (if int (length log1) > MAX_HISTORY_ENTRIES cfg then tl log1 else log1)
      in (entry, log2))"

text \<open>A run of calls, each on the log the previous one left.\<close>

definition add_all :: "config \<Rightarrow> history_entry list \<Rightarrow> add_call list \<Rightarrow> history_entry list" where
  "add_all cfg log cs = foldl (\<lambda>l c. snd (add_conversation cfg c l)) log cs"

text \<open>
  \<open>get_recent_conversations\<close>: \<open>conversation_history[-limit:]\<close> when the log is not
  empty, reversed.
\<close>

definition get_recent_conversations :: "int \<Rightarrow> history_entry list \<Rightarrow> history_entry list" where
  "get_recent_conversations limit log =
     (let recent_conversations = (if log \<noteq> [] then slice_from (- limit) log else [])
      in rev recent_conversations)"

definition clear_history :: "history_entry list \<Rightarrow> bool \<times> history_entry list" where
  "clear_history log = (True, [])"

text \<open>
  The \<open>/api/history\<close> endpoint: the limit is capped at 500, and the reply carries the
  entries and their count.
\<close>

definition get_history :: "int \<Rightarrow> history_entry list \<Rightarrow> history_entry list \<times> nat" where
  "get_history limit log =
     (let limit1 = min limit 500;
          conversations = get_recent_conversations limit1 log
      in (conversations, length conversations))"

section \<open>RateLimiter\<close>

text \<open>
  \<open>rate_limit_tracker\<close>: for each client key the recorded request times. The key is
  whatever the caller passes; the dictionary operations raise on an unhashable one.
\<close>

type_synonym tracker = "pyval \<rightharpoonup> time list"

text \<open>
  The body of the \<open>try\<close> block of \<open>is_rate_limited\<close>. A key without an entry gets the
  empty list; the list is pruned to the times later than one minute before now and
  stored; at or above the configured rate the call reports limited, otherwise it
  appends the current time and reports not limited. The first dictionary operation
  raises before anything is stored when the key cannot be hashed.
\<close>

definition recorded :: "tracker \<Rightarrow> pyval \<Rightarrow> time list" where
  "recorded tr client_ip = (case tr client_ip of None \<Rightarrow> [] | Some ts \<Rightarrow> ts)"

definition is_rate_limited_body ::
  "config \<Rightarrow> time \<Rightarrow> pyval \<Rightarrow> tracker \<Rightarrow> py_error + (bool \<times> tracker)" where
  "is_rate_limited_body cfg current_time client_ip tr =
     (if \<not> hashable client_ip then Inl TypeError
      else
        let cutoff_time = current_time - minutes 1;
            kept = filter (\<lambda>timestamp. timestamp > cutoff_time) (recorded tr client_ip)
        in if int (length kept) \<ge> RATE_LIMIT_PER_MINUTE cfg
           then Inr (True, tr(client_ip \<mapsto> kept))
           else Inr (False, tr(client_ip \<mapsto> kept @ [current_time])))"

text \<open>\<open>is_rate_limited\<close>: the body, with \<open>except Exception: return False\<close> around it.\<close>

definition is_rate_limited :: "config \<Rightarrow> time \<Rightarrow> pyval \<Rightarrow> tracker \<Rightarrow> bool \<times> tracker" where
  "is_rate_limited cfg current_time client_ip tr =
     (case is_rate_limited_body cfg current_time client_ip tr of
        Inl e \<Rightarrow> (False, tr)
      | Inr r \<Rightarrow> r)"

text \<open>
  A run of checks for one key at the given times, each on the tracker the previous one
  left: the answers in order, and the final tracker.
\<close>

fun run_checks :: "config \<Rightarrow> pyval \<Rightarrow> tracker \<Rightarrow> time list \<Rightarrow> bool list \<times> tracker" where
  "run_checks cfg k tr [] = ([], tr)"
| "run_checks cfg k tr (t # ts) =
     (let (b, tr1) = is_rate_limited cfg t k tr;
          (bs, tr2) = run_checks cfg k tr1 ts
      in (b # bs, tr2))"

section \<open>SessionManager and the conversation contexts\<close>

record session_data =
  sd_created :: time
  sd_last_activity :: time
  sd_user_ip :: pyval
  sd_message_count :: int

datatype mood = Positive | Negative | Neutral

record exchange =
  ex_user :: pystr
  ex_bot :: pystr
  ex_timestamp :: time
  ex_mood :: mood

record user_context =
  conversation_history :: "exchange list"
  user_name :: "pystr option"
  topics_discussed :: "pystr list"
  mood :: mood
  preferences :: "(pystr \<times> pystr) list"
  last_topic :: "pystr option"
  interaction_count :: int

text \<open>The two global dictionaries keyed by session id.\<close>

record state =
  active_sessions :: "pystr \<rightharpoonup> session_data"
  user_contexts :: "pystr \<rightharpoonup> user_context"

definition empty_state :: state where
  "empty_state = \<lparr> active_sessions = Map.empty, user_contexts = Map.empty \<rparr>"

definition new_context :: user_context where
  "new_context =
     \<lparr> conversation_history = [], user_name = None, topics_discussed = [], mood = Neutral,
       preferences = [], last_topic = None, interaction_count = 0 \<rparr>"

text \<open>
  \<open>create_session\<close>: \<open>session_id\<close> is the string of the fresh uuid. Both dictionaries
  get their entry for it, and the id is returned.
\<close>

definition create_session :: "pystr \<Rightarrow> time \<Rightarrow> pyval \<Rightarrow> state \<Rightarrow> pystr \<times> state" where
  "create_session session_id current_time user_ip st =
     (session_id,
      st\<lparr> active_sessions := (active_sessions st)(session_id \<mapsto>
             \<lparr> sd_created = current_time, sd_last_activity = current_time,
               sd_user_ip = user_ip, sd_message_count = 0 \<rparr>),
          user_contexts := (user_contexts st)(session_id \<mapsto> new_context) \<rparr>)"

text \<open>
  Membership and lookup in a dictionary whose keys are all strings, for any value
  passed as the key: an unhashable one raises, anything but a string is not a key.
\<close>

fun dict_get :: "pyval \<Rightarrow> (pystr \<rightharpoonup> 'a) \<Rightarrow> py_error + 'a option" where
  "dict_get (PStr s) m = Inr (m s)"
| "dict_get (PList xs) m = Inl TypeError"
| "dict_get PNone m = Inr None"
| "dict_get (PInt i) m = Inr None"

text \<open>
  \<open>update_session\<close>: for a known id, set the last activity to now and count the
  message. Any exception gives \<open>False\<close>.
\<close>

definition update_session :: "time \<Rightarrow> pyval \<Rightarrow> state \<Rightarrow> bool \<times> state" where
  "update_session now session_id st =
     (case dict_get session_id (active_sessions st) of
        Inl e \<Rightarrow> (False, st)
      | Inr None \<Rightarrow> (False, st)
      | Inr (Some sd) \<Rightarrow>
          (case session_id of
             PStr s \<Rightarrow>
               (True, st\<lparr> active_sessions := (active_sessions st)(s \<mapsto>
                  sd\<lparr> sd_last_activity := now,
                      sd_message_count := sd_message_count sd + 1 \<rparr>) \<rparr>)
           | _ \<Rightarrow> (False, st)))"

text \<open>
  The body of the \<open>try\<close> block of \<open>is_valid_session\<close>: a falsy or unknown id is not
  valid; a known one is valid when its last activity is later than the timeout before
  now. Subtracting the timeout from now raises \<open>OverflowError\<close> when the result is not
  a datetime.
\<close>

definition is_valid_session_body ::
  "config \<Rightarrow> time \<Rightarrow> pyval \<Rightarrow> state \<Rightarrow> py_error + bool" where
  "is_valid_session_body cfg now session_id st =
     (if \<not> truthy session_id then Inr False
      else
        (case dict_get session_id (active_sessions st) of
           Inl e \<Rightarrow> Inl e
         | Inr None \<Rightarrow> Inr False
         | Inr (Some session_data) \<Rightarrow>
             (let last_activity = sd_last_activity session_data;
                  cutoff_time = now - hours (SESSION_TIMEOUT_HOURS cfg)
              in if cutoff_time < datetime_min \<or> datetime_max < cutoff_time
                 then Inl OverflowError
                 else Inr (last_activity > cutoff_time))))"

text \<open>\<open>is_valid_session\<close>: the body, with \<open>except Exception: return False\<close> around it.\<close>

definition is_valid_session :: "config \<Rightarrow> time \<Rightarrow> pyval \<Rightarrow> state \<Rightarrow> bool" where
  "is_valid_session cfg now session_id st =
     (case is_valid_session_body cfg now session_id st of
        Inl e \<Rightarrow> False
      | Inr b \<Rightarrow> b)"

section \<open>ConversationEnhancer\<close>

text \<open>
  The mood keywords, in the order of the source's dictionary; the first set with a
  keyword in the lower-cased text wins, and the default is neutral.
\<close>

definition detect_mood :: "unicode_db \<Rightarrow> pystr \<Rightarrow> mood" where
  "detect_mood U user_msg =
     (let user_lower = str_lower U user_msg in
      if any_in [u ''great'', u ''awesome'', u ''love'', u ''excited'', u ''happy''] user_lower
      then Positive
      else if any_in [u ''sad'', u ''angry'', u ''frustrated'', u ''disappointed''] user_lower
      then Negative
      else if any_in [u ''okay'', u ''fine'', u ''alright''] user_lower
      then Neutral
      else Neutral)"

text \<open>
  The regular expression \<open>(?:my name is|call me|i am|i'm)\s+(\w+)\<close>.
  \<open>match_token\<close> is \<open>\s+(\w+)\<close> at the start of a string: both repetitions are greedy
  and the two classes are disjoint, so the group is the longest run of word characters
  after the longest run of whitespace, both non-empty.
  \<open>match_alternatives\<close> tries the alternatives in their order at one position, going
  on to the next alternative when the rest of the expression fails.
\<close>

definition name_phrases :: "pystr list" where
  "name_phrases = [u ''my name is'', u ''call me'', u ''i am'', u ''i'm'']"

definition match_token :: "unicode_db \<Rightarrow> pystr \<Rightarrow> pystr option" where
  "match_token U s =
     (let rest = dropWhile is_space s;
          w = takeWhile (re_word U) rest
      in if takeWhile is_space s \<noteq> [] \<and> w \<noteq> [] then Some w else None)"

fun match_alternatives :: "unicode_db \<Rightarrow> pystr list \<Rightarrow> pystr \<Rightarrow> pystr option" where
  "match_alternatives U [] s = None"
| "match_alternatives U (p # ps) s =
     (if prefix p s
      then (case match_token U (drop (length p) s) of
              Some w \<Rightarrow> Some w
            | None \<Rightarrow> match_alternatives U ps s)
      else match_alternatives U ps s)"

text \<open>
  \<open>re.search\<close>: the match at the leftmost position of the string at which the
  expression matches; \<open>m\<close> is the expression anchored at the start of its argument.
\<close>

fun re_search :: "(pystr \<Rightarrow> 'a option) \<Rightarrow> pystr \<Rightarrow> 'a option" where
  "re_search m [] = m []"
| "re_search m (c # cs) =
     (case m (c # cs) of
        Some r \<Rightarrow> Some r
      | None \<Rightarrow> re_search m cs)"

definition name_match :: "unicode_db \<Rightarrow> pystr \<Rightarrow> pystr option" where
  "name_match U s = re_search (match_alternatives U name_phrases) s"

text \<open>
  The reading of the specification, for comparison with \<open>name_match\<close>: the four
  phrases are four patterns applied in their order, each searched over the whole text,
  and the first pattern that matches anywhere gives the name.
\<close>

fun first_pattern_match :: "unicode_db \<Rightarrow> pystr list \<Rightarrow> pystr \<Rightarrow> pystr option" where
  "first_pattern_match U [] s = None"
| "first_pattern_match U (p # ps) s =
     (case re_search (match_alternatives U [p]) s of
        Some g \<Rightarrow> Some g
      | None \<Rightarrow> first_pattern_match U ps s)"

definition spec_name_match :: "unicode_db \<Rightarrow> pystr \<Rightarrow> pystr option" where
  "spec_name_match U s = first_pattern_match U name_phrases s"

text \<open>
  \<open>update_context\<close>, on the dictionary of contexts: a missing context is created,
  the interaction is counted, the mood detected, the exchange appended and the history
  cut to its last ten, and a name found in the lower-cased text is stored capitalised.
\<close>

definition update_context ::
  "unicode_db \<Rightarrow> time \<Rightarrow> pystr \<Rightarrow> pystr \<Rightarrow> pystr \<Rightarrow> (pystr \<rightharpoonup> user_context) \<Rightarrow>
   (pystr \<rightharpoonup> user_context)" where
  "update_context U now session_id user_msg bot_reply ctxs =
     (let context0 = (case ctxs session_id of None \<Rightarrow> new_context | Some c \<Rightarrow> c);
          detected_mood = detect_mood U user_msg;
          history1 = conversation_history context0 @
             [\<lparr> ex_user = user_msg, ex_bot = bot_reply, ex_timestamp = now,
                ex_mood = detected_mood \<rparr>];
          history2 = (if length history1 > 10 then slice_from (- 10) history1 else history1);
          context1 = context0\<lparr> interaction_count := interaction_count context0 + 1,
                               mood := detected_mood,
                               conversation_history := history2 \<rparr>;
          context2 = (case name_match U (str_lower U user_msg) of
                        Some g \<Rightarrow> context1\<lparr> user_name := Some (str_capitalize U g) \<rparr>
                      | None \<Rightarrow> context1)
      in ctxs(session_id \<mapsto> context2))"

text \<open>\<open>sep.join(parts)\<close>.\<close>

fun join :: "'a list \<Rightarrow> 'a list list \<Rightarrow> 'a list" where
  "join sep [] = []"
| "join sep [p] = p"
| "join sep (p # q # ps) = p @ sep @ join sep (q # ps)"

definition render_exchange :: "exchange \<Rightarrow> pystr" where
  "render_exchange e =
     u ''User: '' @ slice_to 100 (ex_user e) @ u ''\<newline>Assistant: '' @
     slice_to 100 (ex_bot e) @ u ''\<newline>''"

definition get_enhanced_prompt :: "pystr \<Rightarrow> pystr \<Rightarrow> (pystr \<rightharpoonup> user_context) \<Rightarrow> pystr" where
  "get_enhanced_prompt session_id user_msg ctxs =
     (case ctxs session_id of
        None \<Rightarrow> user_msg
      | Some ctx \<Rightarrow>
          join (u ''\<newline>'')
            ([u ''You are a helpful and friendly AI assistant. Be conversational and engaging.''] @
             (case user_name ctx of
                None \<Rightarrow> []
              | Some n \<Rightarrow> if n \<noteq> [] then [u ''The user's name is '' @ n @ u ''.''] else []) @
             (if conversation_history ctx \<noteq> []
              then [u ''Recent conversation:\<newline>'' @
                    concat (map render_exchange (slice_from (- 3) (conversation_history ctx)))]
              else []) @
             [u ''\<newline>Current message: '' @ user_msg,
              u ''\<newline>Respond naturally and helpfully.'']))"

section \<open>WikipediaService\<close>

text \<open>
  The \<open>wikipedia\<close> package is the external provider. A page fetch gives a loaded page,
  raises \<open>DisambiguationError\<close> with its options, or raises something else; a summary
  or a search gives its result or raises (\<open>None\<close>).
\<close>

record page =
  title :: pystr
  content :: pystr

datatype page_result = Page page | DisambiguationError "pystr list" | PageError

record provider =
  wp_page :: "pystr \<Rightarrow> page_result"
  wp_summary :: "pystr \<Rightarrow> pystr option"
  wp_search :: "pystr \<Rightarrow> pystr list option"

text \<open>\<open>str(i)\<close> for a natural number.\<close>

function str_nat :: "nat \<Rightarrow> pystr" where
  "str_nat n = (if n < 10 then [48 + n] else str_nat (n div 10) @ [48 + n mod 10])"
  by pat_completeness auto
termination
  by (relation "measure id") auto

declare str_nat.simps [simp del]

text \<open>
  \<open>_clean_query\<close>: the first question word that starts the stripped query is cut off.
  The question words are ASCII, and only the two non-ASCII characters U+0130 and U+212A
  lower-case to text with an ASCII letter (\<open>i\<close> followed by a combining dot, and \<open>k\<close>),
  neither of which can complete a question word; so lower-casing the ASCII letters alone
  decides the test as \<open>str.lower\<close> does.
\<close>

definition question_words :: "pystr list" where
  "question_words =
     [u ''what is'', u ''who is'', u ''tell me about'', u ''explain'', u ''describe'', u ''define'']"

fun cut_question_word :: "pystr list \<Rightarrow> pystr \<Rightarrow> pystr" where
  "cut_question_word [] clean_query = clean_query"
| "cut_question_word (word # ws) clean_query =
     (if prefix word (lower clean_query) then strip (drop (length word) clean_query)
      else cut_question_word ws clean_query)"

definition clean_query :: "pystr \<Rightarrow> pystr" where
  "clean_query query = cut_question_word question_words (strip query)"

text \<open>
  The paragraphs the formatter keeps: the pieces of the content between blank lines,
  stripped, longer than 100 characters and not starting with \<open>==\<close>.
\<close>

definition paragraphs :: "pystr \<Rightarrow> pystr list" where
  "paragraphs c =
     filter (\<lambda>p. p \<noteq> [] \<and> length p > 100 \<and> \<not> prefix (u ''=='') p)
       (map strip (split_sep (u ''\<newline>\<newline>'') c))"

text \<open>
  The loop of \<open>_format_comprehensive_response\<close> over the kept paragraphs, from the
  current length: the parts it appends. A paragraph that would pass 4000 ends the loop,
  after a truncated copy when fewer than 3000 characters are out: its first
  \<open>4000 - current_length - 50\<close> characters, cut before their last full stop, with a
  full stop appended. Otherwise the paragraph is appended, and the loop ends at 3500.
\<close>

fun format_loop :: "nat \<Rightarrow> pystr list \<Rightarrow> pystr list" where
  "format_loop current_length [] = []"
| "format_loop current_length (para # rest) =
     (if current_length + length para > 4000
      then (if current_length < 3000
            then (let remaining = 4000 - int current_length - 50;
                      truncated = rsplit1_head 46 (slice_to remaining para) @ u ''.''
                  in [truncated @ u ''\<newline>\<newline>''])
            else [])
      else (para @ u ''\<newline>\<newline>'') #
           (if current_length + length para + 2 \<ge> 3500 then []
            else format_loop (current_length + length para + 2) rest))"

definition heading :: "pystr \<Rightarrow> pystr" where
  "heading t = [128218] @ u '' **'' @ t @ u ''**\<newline>\<newline>''"

definition footer :: pystr where
  "footer = [128279] @ u '' *Source: Wikipedia*''"

definition format_comprehensive_response :: "page \<Rightarrow> pystr option" where
  "format_comprehensive_response pg =
     (let ps = paragraphs (content pg) in
      if ps = [] then None
      else Some (concat ([heading (title pg)] @ format_loop (length (heading (title pg))) ps @
                         [footer])))"

text \<open>One numbered entry of a listing, with the two-sentence summary when it can be fetched.\<close>

definition listing_entry :: "provider \<Rightarrow> nat \<Rightarrow> pystr \<Rightarrow> pystr" where
  "listing_entry wp i option =
     (case wp_summary wp option of
        Some summary \<Rightarrow>
          u ''**'' @ str_nat i @ u ''. '' @ option @ u ''**\<newline>'' @ summary @
          u ''\<newline>\<newline>''
      | None \<Rightarrow> u ''**'' @ str_nat i @ u ''. '' @ option @ u ''**\<newline>\<newline>'')"

definition listing :: "provider \<Rightarrow> pystr list \<Rightarrow> pystr" where
  "listing wp options =
     concat (map (\<lambda>(i, option). listing_entry wp i option)
                 (zip [1 ..< Suc (length options)] options))"

definition handle_disambiguation :: "provider \<Rightarrow> pystr \<Rightarrow> pystr list \<Rightarrow> pystr" where
  "handle_disambiguation wp query options =
     [128269] @ u '' I found multiple topics for '' @ [39] @ query @
     [39] @ u ''. Here are the main ones:\<newline>\<newline>'' @
     listing wp (take 5 options) @
     [128161] @ u '' Please be more specific!''"

definition get_comprehensive_content :: "provider \<Rightarrow> pystr \<Rightarrow> pystr option" where
  "get_comprehensive_content wp query =
     (case wp_page wp query of
        Page pg \<Rightarrow> format_comprehensive_response pg
      | DisambiguationError options \<Rightarrow>
          (case options of
             [] \<Rightarrow> Some (handle_disambiguation wp query (take 5 options))
           | first # _ \<Rightarrow>
               (case wp_page wp first of
                  Page pg \<Rightarrow> format_comprehensive_response pg
                | _ \<Rightarrow> Some (handle_disambiguation wp query (take 5 options))))
      | PageError \<Rightarrow> None)"

definition get_search_suggestions :: "provider \<Rightarrow> pystr \<Rightarrow> pystr" where
  "get_search_suggestions wp query =
     (case wp_search wp query of
        None \<Rightarrow> u ''I encountered an issue searching for '' @ [39] @ query @ [39] @ u ''.''
      | Some search_results \<Rightarrow>
          if search_results = []
          then u ''I couldn't find any Wikipedia articles about '' @ [39] @ query @ [39] @ u ''.''
          else [128270] @ u '' I found these Wikipedia articles related to '' @ [39] @ query @
               [39] @ u '':\<newline>\<newline>'' @ listing wp search_results)"

text \<open>
  \<open>search_wikipedia\<close>: the formatted content when there is one and it is not empty,
  the search suggestions otherwise.
\<close>

definition search_wikipedia :: "provider \<Rightarrow> pystr \<Rightarrow> pystr" where
  "search_wikipedia wp query =
     (let cq = clean_query query in
      case get_comprehensive_content wp cq of
        Some result \<Rightarrow> if result \<noteq> [] then result else get_search_suggestions wp cq
      | None \<Rightarrow> get_search_suggestions wp cq)"

text \<open>
  \<open>is_wikipedia_query\<close>: one of two expressions \<open>\b(p1|p2|...)\b\<close> is found in the
  lower-cased message. \<open>\b\<close> holds between two neighbours of which exactly one is a
  word character, the ends of the text counting as non-word. \<open>bounded_search\<close> walks
  the text with the character before the current position.
\<close>

definition word_opt :: "unicode_db \<Rightarrow> nat option \<Rightarrow> bool" where
  "word_opt U c = (case c of None \<Rightarrow> False | Some x \<Rightarrow> re_word U x)"

definition boundary :: "unicode_db \<Rightarrow> nat option \<Rightarrow> nat option \<Rightarrow> bool" where
  "boundary U a b \<longleftrightarrow> word_opt U a \<noteq> word_opt U b"

definition head_opt :: "'a list \<Rightarrow> 'a option" where
  "head_opt s = (case s of [] \<Rightarrow> None | c # _ \<Rightarrow> Some c)"

definition bounded_here :: "unicode_db \<Rightarrow> pystr list \<Rightarrow> nat option \<Rightarrow> pystr \<Rightarrow> bool" where
  "bounded_here U ps prev s \<longleftrightarrow>
     boundary U prev (head_opt s) \<and>
     list_ex (\<lambda>p. prefix p s \<and>
                   boundary U (if p = [] then prev else Some (last p))
                            (head_opt (drop (length p) s))) ps"

fun bounded_search :: "unicode_db \<Rightarrow> pystr list \<Rightarrow> nat option \<Rightarrow> pystr \<Rightarrow> bool" where
  "bounded_search U ps prev [] = bounded_here U ps prev []"
| "bounded_search U ps prev (c # cs) =
     (bounded_here U ps prev (c # cs) \<or> bounded_search U ps (Some c) cs)"

definition is_wikipedia_query :: "unicode_db \<Rightarrow> pystr \<Rightarrow> bool" where
  "is_wikipedia_query U message \<longleftrightarrow>
     bounded_search U question_words None (str_lower U message) \<or>
     bounded_search U [u ''wikipedia'', u ''facts about'', u ''information about''] None
       (str_lower U message)"

section \<open>AIService\<close>

record envelope =
  rsp_text :: pystr
  rsp_source :: pystr
  rsp_emoji :: pystr

text \<open>
  The generative provider: a call raises, returns a response without usable text, or
  returns a response with its text.
\<close>

datatype gen_outcome = GenRaises | GenNoText | GenText pystr

record env =
  GENAI_AVAILABLE :: bool
  generate_content :: "pystr \<Rightarrow> gen_outcome"
  wikipedia :: provider

definition name_greeting_of :: "pystr option \<Rightarrow> pystr" where
  "name_greeting_of name =
     (case name of
        None \<Rightarrow> []
      | Some n \<Rightarrow> if n \<noteq> [] then u '' '' @ n else [])"

text \<open>
  \<open>_get_fallback_response\<close>: the name of the session's context, if any, and the chain
  of keyword checks in the source's order. The keyword lists are those of the source.
\<close>

definition greeting_words :: "pystr list" where
  "greeting_words = [u ''hello'', u ''hi'', u ''hey'', u ''good morning'', u ''good evening'']"

definition status_words :: "pystr list" where
  "status_words = [u ''how are you'', u ''how r u'']"

definition help_words :: "pystr list" where
  "help_words = [u ''help'', u ''what can you do'']"

definition thanks_words :: "pystr list" where
  "thanks_words = [u ''thank'', u ''thanks'']"

definition known_name :: "(pystr \<rightharpoonup> user_context) \<Rightarrow> pystr \<Rightarrow> pystr option" where
  "known_name ctxs session_id = (case ctxs session_id of None \<Rightarrow> None | Some c \<Rightarrow> user_name c)"

definition get_fallback_response ::
  "unicode_db \<Rightarrow> pystr \<Rightarrow> pystr \<Rightarrow> (pystr \<rightharpoonup> user_context) \<Rightarrow> envelope" where
  "get_fallback_response U message session_id ctxs =
     (let message_lower = str_lower U message;
          name_greeting = name_greeting_of (known_name ctxs session_id)
      in
      if any_in greeting_words message_lower
      then \<lparr> rsp_text = [128075] @ u '' Hello'' @ name_greeting @
                    u ''! I'm your AI assistant. How can I help you today?'',
             rsp_source = u ''fallback'', rsp_emoji = [128075] \<rparr>
      else if any_in status_words message_lower
      then \<lparr> rsp_text = u ''I'm doing great'' @ name_greeting @
                    u ''! Ready to help. What would you like to know?'',
             rsp_source = u ''fallback'', rsp_emoji = [128522] \<rparr>
      else if any_in help_words message_lower
      then \<lparr> rsp_text = u ''I can help you with:\<newline>\<newline>'' @ [128218] @
                    u '' Search Wikipedia for information\<newline>'' @ [128172] @
                    u '' Answer questions\<newline>'' @ [129300] @
                    u '' General conversation\<newline>\<newline>What would you like to explore?'',
             rsp_source = u ''fallback'', rsp_emoji = [128161] \<rparr>
      else if any_in thanks_words message_lower
      then \<lparr> rsp_text = u ''You're welcome'' @ name_greeting @ u ''! Happy to help anytime! '' @
                    [128522],
             rsp_source = u ''fallback'', rsp_emoji = [128522] \<rparr>
      else if contains (u ''?'') message
      then \<lparr> rsp_text = u ''That's an interesting question! Try asking about specific topics and I'll search Wikipedia for accurate information.'',
             rsp_source = u ''fallback'', rsp_emoji = [129300] \<rparr>
      else \<lparr> rsp_text = u ''I understand'' @ name_greeting @
                    u ''! Feel free to ask me anything, especially factual topics I can research for you.'',
             rsp_source = u ''fallback'', rsp_emoji = [128172] \<rparr>)"

text \<open>\<open>_get_gemini_response\<close>: the generative reply when there is one, the fallback otherwise.\<close>

definition get_gemini_response ::
  "unicode_db \<Rightarrow> config \<Rightarrow> env \<Rightarrow> pystr \<Rightarrow> pystr \<Rightarrow> (pystr \<rightharpoonup> user_context) \<Rightarrow>
   envelope" where
  "get_gemini_response U cfg e message session_id ctxs =
     (if \<not> GENAI_AVAILABLE e \<or> GOOGLE_API_KEY cfg = []
      then get_fallback_response U message session_id ctxs
      else
        (case generate_content e (get_enhanced_prompt session_id message ctxs) of
           GenText t \<Rightarrow>
             if t \<noteq> [] then \<lparr> rsp_text = t, rsp_source = u ''gemini'', rsp_emoji = [129302] \<rparr>
             else get_fallback_response U message session_id ctxs
         | GenNoText \<Rightarrow> get_fallback_response U message session_id ctxs
         | GenRaises \<Rightarrow> get_fallback_response U message session_id ctxs))"

definition code_prompt :: "pystr \<Rightarrow> pystr" where
  "code_prompt message =
     u ''Generate clean, well-commented code for: '' @ message @
     u ''\<newline>\<newline>Please provide:\<newline>1. Complete, functional code\<newline>2. Clear comments\<newline>3. Example usage\<newline>\<newline>Format with markdown code blocks.''"

text \<open>
  \<open>_get_gemini_code_response\<close>: without the provider an error envelope; otherwise the
  generated text, or one of two fixed sentences when the call raises or gives no text,
  under the heading and the source of a generated reply.
\<close>

definition get_gemini_code_response :: "config \<Rightarrow> env \<Rightarrow> pystr \<Rightarrow> pystr \<Rightarrow> envelope" where
  "get_gemini_code_response cfg e message session_id =
     (if \<not> GENAI_AVAILABLE e \<or> GOOGLE_API_KEY cfg = []
      then \<lparr> rsp_text = u ''Code generation requires AI setup.'', rsp_source = u ''error'',
             rsp_emoji = [128187] \<rparr>
      else
        (let response_text =
               (case generate_content e (code_prompt message) of
                  GenText t \<Rightarrow> t
                | GenNoText \<Rightarrow> u ''Couldn't generate code.''
                | GenRaises \<Rightarrow> u ''I couldn't generate code at this time.'')
         in \<lparr> rsp_text = u ''**Code Generated**\<newline>\<newline>'' @ response_text,
              rsp_source = u ''gemini-code'', rsp_emoji = [128187] \<rparr>))"

definition code_keywords :: "pystr list" where
  "code_keywords = [u ''write code'', u ''generate code'', u ''python code'', u ''javascript code'']"

text \<open>\<open>get_response\<close>: the cascade of the three routes.\<close>

definition get_response ::
  "unicode_db \<Rightarrow> config \<Rightarrow> env \<Rightarrow> pystr \<Rightarrow> pystr \<Rightarrow> (pystr \<rightharpoonup> user_context) \<Rightarrow>
   envelope" where
  "get_response U cfg e message session_id ctxs =
     (if is_wikipedia_query U message
      then \<lparr> rsp_text = search_wikipedia (wikipedia e) message, rsp_source = u ''wikipedia'',
             rsp_emoji = [128269] \<rparr>
      else if any_in code_keywords (str_lower U message)
      then get_gemini_code_response cfg e message session_id
      else get_gemini_response U cfg e message session_id ctxs)"

section \<open>Sample inputs\<close>

text \<open>Concrete calls and pages on which the theorems below are run.\<close>

definition sample_call :: "nat \<Rightarrow> add_call" where
  "sample_call n =
     \<lparr> ac_uuid = [48 + n], ac_now = seconds (int n), ac_user_msg = u ''hello'',
       ac_bot_reply = u ''hi there'', ac_session_id = u ''s1'', ac_input_method = u ''text'',
       ac_user_ip = u ''10.0.0.1'', ac_response_time = 5 \<rparr>"

definition no_wikipedia :: provider where
  "no_wikipedia =
     \<lparr> wp_page = (\<lambda>q. PageError), wp_summary = (\<lambda>q. None), wp_search = (\<lambda>q. None) \<rparr>"

text \<open>An environment whose generative provider is configured and raises on every call.\<close>

definition failing_env :: env where
  "failing_env =
     \<lparr> GENAI_AVAILABLE = True, generate_content = (\<lambda>p. GenRaises), wikipedia = no_wikipedia \<rparr>"

text \<open>An environment without the generative package.\<close>

definition unavailable_env :: env where
  "unavailable_env =
     \<lparr> GENAI_AVAILABLE = False, generate_content = (\<lambda>p. GenRaises), wikipedia = no_wikipedia \<rparr>"



text \<open>
  A page whose content is one paragraph of a thousand words and no full stop.
\<close>

definition wordy_paragraph :: pystr where
  "wordy_paragraph = u ''word'' @ concat (replicate 999 (u '' word''))"

definition wordy_page :: page where
  "wordy_page = \<lparr> title = u ''Long'', content = wordy_paragraph \<rparr>"

section \<open>Properties of the history log\<close>

lemma add_conversation_log:
  "snd (add_conversation cfg c log) =
     (if int (length log) + 1 > MAX_HISTORY_ENTRIES cfg then tl (log @ [make_entry c])
      else log @ [make_entry c])"
  by (simp add: add_conversation_def Let_def)

lemma add_all_snoc:
  "add_all cfg log (cs @ [c]) = snd (add_conversation cfg c (add_all cfg log cs))"
  by (simp add: add_all_def)

lemma tl_drop_snoc:
  "n \<le> length xs \<Longrightarrow> tl (drop n xs @ [e]) = drop (Suc n) (xs @ [e])"
proof -
  assume "n \<le> length xs"
  then have "drop n xs @ [e] = drop n (xs @ [e])" by simp
  moreover have "tl (drop n (xs @ [e])) = drop (Suc n) (xs @ [e])"
    by (simp only: drop_Suc tl_drop)
  ultimately show ?thesis by (simp only:)
qed

lemma add_all_from_empty:
  "add_all (cfg\<lparr>MAX_HISTORY_ENTRIES := int cap\<rparr>) [] cs =
     drop (length cs - cap) (map make_entry cs)"
proof (induction cs rule: rev_induct)
  case Nil
  show ?case by (simp add: add_all_def)
next
  case (snoc c cs)
  let ?cfg = "cfg\<lparr>MAX_HISTORY_ENTRIES := int cap\<rparr>"
  let ?log = "drop (length cs - cap) (map make_entry cs)"
  have len: "length ?log = min (length cs) cap" by auto
  show ?case
  proof (cases "length cs < cap")
    case True
    then show ?thesis
      using snoc.IH by (simp add: add_all_snoc add_conversation_log)
  next
    case False
    then have full: "length ?log = cap" using len by simp
    have "snd (add_conversation ?cfg c ?log) = tl (?log @ [make_entry c])"
      using full by (simp add: add_conversation_log)
    also have "\<dots> = drop (Suc (length cs - cap)) (map make_entry cs @ [make_entry c])"
      by (rule tl_drop_snoc) simp
    also have "\<dots> = drop (length (cs @ [c]) - cap) (map make_entry (cs @ [c]))"
      using False by (simp add: Suc_diff_le)
    finally show ?thesis
      using snoc.IH by (simp add: add_all_snoc)
  qed
qed

text \<open>
  C2. Starting from the empty log with capacity \<open>cap\<close>, the log never holds more than
  \<open>cap\<close> entries, and after \<open>cap + k\<close> appends it holds exactly \<open>cap\<close> entries: the
  entries of the last \<open>cap\<close> calls in the order of the calls, the first \<open>k\<close> evicted.
\<close>

theorem history_capacity_fifo:
  "length (add_all (cfg\<lparr>MAX_HISTORY_ENTRIES := int cap\<rparr>) [] cs) \<le> cap \<and>
   (length cs = cap + k \<longrightarrow>
      add_all (cfg\<lparr>MAX_HISTORY_ENTRIES := int cap\<rparr>) [] cs = drop k (map make_entry cs) \<and>
      length (add_all (cfg\<lparr>MAX_HISTORY_ENTRIES := int cap\<rparr>) [] cs) = cap)"
  by (auto simp: add_all_from_empty)

theorem history_capacity_fifo_witness:
  "length [sample_call 1, sample_call 2, sample_call 3] = 2 + 1 \<and>
   add_all (default_config []\<lparr>MAX_HISTORY_ENTRIES := int 2\<rparr>) []
       [sample_call 1, sample_call 2, sample_call 3] =
     [make_entry (sample_call 2), make_entry (sample_call 3)]"
  using history_capacity_fifo [where cfg = "default_config []" and cap = 2 and k = 1
      and cs = "[sample_call 1, sample_call 2, sample_call 3]"]
  by simp

lemma slice_from_neg:
  "0 < n \<Longrightarrow> slice_from (- n) xs = drop (length xs - nat n) xs"
  by (auto simp: slice_from_def nat_diff_distrib' intro: arg_cong [where f = "\<lambda>k. drop k xs"])

lemma get_recent_positive:
  "0 < limit \<Longrightarrow> get_recent_conversations limit log = take (nat limit) (rev log)"
  by (cases "log = []") (simp_all add: get_recent_conversations_def slice_from_neg take_rev)

text \<open>
  For a positive limit the endpoint returns the newest \<open>min limit 500\<close> entries, newest
  first, and after a clear it returns nothing.
\<close>

lemma get_history_positive:
  "0 < limit \<Longrightarrow> fst (get_history limit log) = take (nat (min limit 500)) (rev log)"
  by (simp add: get_history_def Let_def get_recent_positive)

lemma get_history_after_clear:
  "get_history limit (snd (clear_history log)) = ([], 0)"
  by (simp add: get_history_def clear_history_def get_recent_conversations_def)

text \<open>
  C8. With the limit 0 the slice \<open>conversation_history[-0:]\<close> is the whole log: the
  endpoint returns every entry, here two of them, where the bound \<open>min 0 500\<close> allows
  none.
\<close>

theorem get_history_limit_zero_returns_all:
  "get_history 0 [make_entry (sample_call 1), make_entry (sample_call 2)] =
     ([make_entry (sample_call 2), make_entry (sample_call 1)], 2)"
  by (simp add: get_history_def get_recent_conversations_def slice_from_def)

section \<open>Properties of the rate limiter\<close>

lemma is_rate_limited_hashable:
  "hashable k \<Longrightarrow>
   is_rate_limited cfg now k tr =
     (let kept = filter (\<lambda>t. now - minutes 1 < t) (recorded tr k) in
      if RATE_LIMIT_PER_MINUTE cfg \<le> int (length kept) then (True, tr(k \<mapsto> kept))
      else (False, tr(k \<mapsto> kept @ [now])))"
  by (simp add: is_rate_limited_def is_rate_limited_body_def Let_def)

lemma recorded_upd: "recorded (tr(k \<mapsto> ts)) k = ts"
  by (simp add: recorded_def)

lemma filter_window:
  assumes "\<forall>x\<in>set rec. x + minutes 1 \<le> w \<or> w \<le> x"
    and "w \<le> t" and "t < w + minutes 1"
  shows "filter (\<lambda>x. t - minutes 1 < x) rec = filter (\<lambda>x. w \<le> x) rec"
  using assms by (intro filter_cong) auto

lemma run_checks_Cons:
  "is_rate_limited cfg t k tr = (b, tr1) \<Longrightarrow>
   run_checks cfg k tr (t # ts) = (b # fst (run_checks cfg k tr1 ts), snd (run_checks cfg k tr1 ts))"
  by (simp add: split_beta)

lemma run_checks_in_window:
  assumes "hashable k"
    and "\<forall>t\<in>set ts. w \<le> t \<and> t < w + minutes 1"
    and "\<forall>x\<in>set (recorded tr k). x + minutes 1 \<le> w \<or> w \<le> x"
  shows "fst (run_checks cfg k tr ts) =
           replicate (min (length ts) (nat (RATE_LIMIT_PER_MINUTE cfg -
                        int (length (filter (\<lambda>x. w \<le> x) (recorded tr k)))))) False @
           replicate (length ts - nat (RATE_LIMIT_PER_MINUTE cfg -
                        int (length (filter (\<lambda>x. w \<le> x) (recorded tr k))))) True \<and>
         (ts \<noteq> [] \<longrightarrow> set (recorded (snd (run_checks cfg k tr ts)) k) \<subseteq>
            set (filter (\<lambda>x. w \<le> x) (recorded tr k)) \<union> set ts)"
  using assms(2,3)
proof (induction ts arbitrary: tr)
  case Nil
  show ?case by simp
next
  case (Cons t ts)
  let ?thr = "RATE_LIMIT_PER_MINUTE cfg"
  let ?fresh = "filter (\<lambda>x. w \<le> x) (recorded tr k)"
  define m where "m = nat (?thr - int (length ?fresh))"
  have t: "w \<le> t" "t < w + minutes 1" using Cons.prems(1) by auto
  have kept: "filter (\<lambda>x. t - minutes 1 < x) (recorded tr k) = ?fresh"
    using filter_window [OF Cons.prems(2) t] .
  have rest: "\<forall>t\<in>set ts. w \<le> t \<and> t < w + minutes 1" using Cons.prems(1) by simp
  show ?case
  proof (cases "?thr \<le> int (length ?fresh)")
    case True
    define tr1 where "tr1 = tr(k \<mapsto> ?fresh)"
    have step: "is_rate_limited cfg t k tr = (True, tr1)"
      using True kept by (simp add: is_rate_limited_hashable [OF assms(1)] tr1_def)
    have rec1: "recorded tr1 k = ?fresh" by (simp add: tr1_def recorded_upd)
    have inv: "\<forall>x\<in>set (recorded tr1 k). x + minutes 1 \<le> w \<or> w \<le> x" by (simp add: rec1)
    have ff: "filter (\<lambda>x. w \<le> x) (recorded tr1 k) = ?fresh" by (simp add: rec1)
    have m0: "m = 0" using True by (simp add: m_def)
    have ih: "fst (run_checks cfg k tr1 ts) = replicate (length ts) True"
      and ih2: "ts \<noteq> [] \<longrightarrow> set (recorded (snd (run_checks cfg k tr1 ts)) k) \<subseteq> set ?fresh \<union> set ts"
      using Cons.IH [OF rest inv] m0 unfolding ff m_def by simp_all
    have res: "fst (run_checks cfg k tr (t # ts)) = replicate (Suc (length ts)) True"
      unfolding run_checks_Cons [OF step] by (simp add: ih)
    have sub: "set (recorded (snd (run_checks cfg k tr (t # ts))) k) \<subseteq> set ?fresh \<union> set (t # ts)"
    proof (cases "ts = []")
      case True
      then show ?thesis unfolding run_checks_Cons [OF step] by (auto simp: rec1)
    next
      case False
      then show ?thesis using ih2 unfolding run_checks_Cons [OF step] by auto
    qed
    show ?thesis using res sub m0 unfolding m_def by simp
  next
    case False
    define tr1 where "tr1 = tr(k \<mapsto> ?fresh @ [t])"
    define m1 where "m1 = nat (?thr - int (length (?fresh @ [t])))"
    have step: "is_rate_limited cfg t k tr = (False, tr1)"
      using False kept by (simp add: is_rate_limited_hashable [OF assms(1)] tr1_def)
    have rec1: "recorded tr1 k = ?fresh @ [t]" by (simp add: tr1_def recorded_upd)
    have inv: "\<forall>x\<in>set (recorded tr1 k). x + minutes 1 \<le> w \<or> w \<le> x" using t by (auto simp: rec1)
    have ff: "filter (\<lambda>x. w \<le> x) (recorded tr1 k) = ?fresh @ [t]" using t by (simp add: rec1)
    have n: "m = Suc m1" using False by (simp add: m_def m1_def nat_diff_distrib')
    have ih: "fst (run_checks cfg k tr1 ts) =
                replicate (min (length ts) m1) False @ replicate (length ts - m1) True"
      and ih2: "ts \<noteq> [] \<longrightarrow> set (recorded (snd (run_checks cfg k tr1 ts)) k) \<subseteq> set (?fresh @ [t]) \<union> set ts"
      using Cons.IH [OF rest inv] unfolding ff m1_def by simp_all
    have res: "fst (run_checks cfg k tr (t # ts)) =
                 replicate (min (length (t # ts)) m) False @ replicate (length (t # ts) - m) True"
      unfolding run_checks_Cons [OF step] by (simp add: ih n)
    have sub: "set (recorded (snd (run_checks cfg k tr (t # ts))) k) \<subseteq> set ?fresh \<union> set (t # ts)"
    proof (cases "ts = []")
      case True
      then show ?thesis unfolding run_checks_Cons [OF step] by (auto simp: rec1)
    next
      case False
      then show ?thesis using ih2 unfolding run_checks_Cons [OF step] by auto
    qed
    show ?thesis using res sub unfolding m_def by simp
  qed
qed

lemma admitted_after_window:
  assumes "hashable k" and "0 < RATE_LIMIT_PER_MINUTE cfg"
    and "\<forall>x\<in>set (recorded tr k). x + minutes 1 \<le> now"
  shows "is_rate_limited cfg now k tr = (False, tr(k \<mapsto> [now]))"
proof -
  have "filter (\<lambda>x. now - minutes 1 < x) (recorded tr k) = []"
    using assms(3) by (auto simp: filter_empty_conv)
  then show ?thesis using assms(2) by (simp add: is_rate_limited_hashable [OF assms(1)])
qed

text \<open>
  C1. For a hashable key, one check prunes the key's recorded times to those later than
  now minus one minute; with at least the configured number left it reports limited and
  stores only the pruned list, otherwise it appends now and reports not limited.
  Hence, when every earlier time of the key is at least a minute older than \<open>w\<close> and the
  checks come at times within the minute starting at \<open>w\<close>, exactly the checks beyond the
  first \<open>RATE_LIMIT_PER_MINUTE\<close> are limited; and with a positive rate a check a minute
  or more after all of them is admitted again.
\<close>

theorem sliding_window_admission:
  assumes "hashable k"
  shows "is_rate_limited cfg now k tr =
           (let kept = filter (\<lambda>t. now - minutes 1 < t) (recorded tr k) in
            if RATE_LIMIT_PER_MINUTE cfg \<le> int (length kept) then (True, tr(k \<mapsto> kept))
            else (False, tr(k \<mapsto> kept @ [now]))) \<and>
         ((\<forall>x\<in>set (recorded tr k). x + minutes 1 \<le> w) \<and>
          (\<forall>t\<in>set ts. w \<le> t \<and> t < w + minutes 1) \<longrightarrow>
            fst (run_checks cfg k tr ts) =
              replicate (min (length ts) (nat (RATE_LIMIT_PER_MINUTE cfg))) False @
              replicate (length ts - nat (RATE_LIMIT_PER_MINUTE cfg)) True \<and>
            (ts \<noteq> [] \<and> 0 < RATE_LIMIT_PER_MINUTE cfg \<and> (\<forall>t\<in>set ts. t + minutes 1 \<le> later) \<longrightarrow>
               fst (is_rate_limited cfg later k (snd (run_checks cfg k tr ts))) = False))"
proof (intro conjI impI)
  show "is_rate_limited cfg now k tr =
           (let kept = filter (\<lambda>t. now - minutes 1 < t) (recorded tr k) in
            if RATE_LIMIT_PER_MINUTE cfg \<le> int (length kept) then (True, tr(k \<mapsto> kept))
            else (False, tr(k \<mapsto> kept @ [now])))"
    by (rule is_rate_limited_hashable [OF assms])
next
  assume h: "(\<forall>x\<in>set (recorded tr k). x + minutes 1 \<le> w) \<and>
             (\<forall>t\<in>set ts. w \<le> t \<and> t < w + minutes 1)"
  have pos: "0 < minutes 1" by (simp add: minutes_def seconds_def)
  have stale: "filter (\<lambda>x. w \<le> x) (recorded tr k) = []"
    using h pos by (auto simp: filter_empty_conv)
  have inv: "\<forall>x\<in>set (recorded tr k). x + minutes 1 \<le> w \<or> w \<le> x" using h by blast
  have win: "\<forall>t\<in>set ts. w \<le> t \<and> t < w + minutes 1" using h by blast
  note run = run_checks_in_window [OF assms win inv, of cfg, unfolded stale]
  show "fst (run_checks cfg k tr ts) =
          replicate (min (length ts) (nat (RATE_LIMIT_PER_MINUTE cfg))) False @
          replicate (length ts - nat (RATE_LIMIT_PER_MINUTE cfg)) True"
    using run by simp
  assume l: "ts \<noteq> [] \<and> 0 < RATE_LIMIT_PER_MINUTE cfg \<and> (\<forall>t\<in>set ts. t + minutes 1 \<le> later)"
  then have "set (recorded (snd (run_checks cfg k tr ts)) k) \<subseteq> set ts" using run by simp
  then have "\<forall>x\<in>set (recorded (snd (run_checks cfg k tr ts)) k). x + minutes 1 \<le> later"
    using l by blast
  then show "fst (is_rate_limited cfg later k (snd (run_checks cfg k tr ts))) = False"
    using l by (simp add: admitted_after_window [OF assms])
qed

theorem sliding_window_admission_witness:
  "hashable (PStr (u ''10.0.0.1'')) \<and>
   recorded Map.empty (PStr (u ''10.0.0.1'')) = [] \<and>
   seconds 2 < 0 + minutes 1 \<and> seconds 2 + minutes 1 \<le> seconds 62 \<and>
   0 < RATE_LIMIT_PER_MINUTE (default_config []\<lparr>RATE_LIMIT_PER_MINUTE := 2\<rparr>) \<and>
   fst (run_checks (default_config []\<lparr>RATE_LIMIT_PER_MINUTE := 2\<rparr>) (PStr (u ''10.0.0.1''))
          Map.empty [seconds 0, seconds 1, seconds 2]) = [False, False, True] \<and>
   fst (is_rate_limited (default_config []\<lparr>RATE_LIMIT_PER_MINUTE := 2\<rparr>) (seconds 62)
          (PStr (u ''10.0.0.1''))
          (snd (run_checks (default_config []\<lparr>RATE_LIMIT_PER_MINUTE := 2\<rparr>)
                  (PStr (u ''10.0.0.1'')) Map.empty [seconds 0, seconds 1, seconds 2]))) = False"
  using sliding_window_admission [where k = "PStr (u ''10.0.0.1'')" and tr = Map.empty
      and cfg = "default_config []\<lparr>RATE_LIMIT_PER_MINUTE := 2\<rparr>" and w = 0
      and ts = "[seconds 0, seconds 1, seconds 2]" and later = "seconds 62" and now = 0]
  by (simp add: recorded_def minutes_def seconds_def default_config_def numeral_2_eq_2
      del: run_checks.simps)






section \<open>Properties of the session store\<close>

lemma is_valid_session_known:
  "is_valid_session cfg now sid st \<longleftrightarrow>
     (\<exists>s sd. sid = PStr s \<and> s \<noteq> [] \<and> active_sessions st s = Some sd \<and>
             datetime_min \<le> now - hours (SESSION_TIMEOUT_HOURS cfg) \<and>
             now - hours (SESSION_TIMEOUT_HOURS cfg) \<le> datetime_max \<and>
             now - sd_last_activity sd < hours (SESSION_TIMEOUT_HOURS cfg))"
  by (cases sid) (auto simp: is_valid_session_def is_valid_session_body_def Let_def split: option.splits)

text \<open>
  C4, as stated, fails at the boundary: a session whose last activity is exactly the
  timeout ago has not exceeded the timeout, and the check still reports it invalid.
\<close>

theorem is_valid_session_boundary_counterexample:
  "\<not> (hours 24 - 0 > hours (SESSION_TIMEOUT_HOURS (default_config []))) \<and>
   active_sessions (snd (create_session (u ''s1'') 0 (PStr (u ''10.0.0.1'')) empty_state)) (u ''s1'') =
     Some \<lparr> sd_created = 0, sd_last_activity = 0, sd_user_ip = PStr (u ''10.0.0.1''),
            sd_message_count = 0 \<rparr> \<and>
   is_valid_session (default_config []) (hours 24) (PStr (u ''s1''))
     (snd (create_session (u ''s1'') 0 (PStr (u ''10.0.0.1'')) empty_state)) = False"
  by (simp add: is_valid_session_def is_valid_session_body_def create_session_def empty_state_def
      default_config_def u_def hours_def minutes_def seconds_def datetime_min_def datetime_max_def)

text \<open>
  C4, amended. The check holds exactly for a non-empty string id that is a key of the
  sessions, when now minus the timeout is a datetime and the last activity is less than
  the timeout ago; it is false for every other value, and false when its body raises,
  as it does for an id that cannot be hashed and for a timeout that takes the
  subtraction out of the range of the datetimes. With a timeout of 24 hours and a clock
  from 1970 on the subtraction stays in the range. The id returned by
  \<open>create_session\<close> is the fresh uuid, and it is valid exactly while less than the
  timeout has passed since the creation and the subtraction stays in the range.
\<close>

theorem is_valid_session_characterised:
  "(is_valid_session cfg now sid st \<longleftrightarrow>
      (\<exists>s sd. sid = PStr s \<and> s \<noteq> [] \<and> active_sessions st s = Some sd \<and>
              datetime_min \<le> now - hours (SESSION_TIMEOUT_HOURS cfg) \<and>
              now - hours (SESSION_TIMEOUT_HOURS cfg) \<le> datetime_max \<and>
              now - sd_last_activity sd < hours (SESSION_TIMEOUT_HOURS cfg))) \<and>
   (is_valid_session_body cfg now sid st = Inl e \<longrightarrow> \<not> is_valid_session cfg now sid st) \<and>
   (SESSION_TIMEOUT_HOURS cfg = 24 \<and> 0 \<le> now \<and> now \<le> datetime_max \<longrightarrow>
      datetime_min \<le> now - hours (SESSION_TIMEOUT_HOURS cfg) \<and>
      now - hours (SESSION_TIMEOUT_HOURS cfg) \<le> datetime_max) \<and>
   (s \<noteq> [] \<longrightarrow>
      fst (create_session s t ip st) = s \<and>
      (is_valid_session cfg now (PStr s) (snd (create_session s t ip st)) \<longleftrightarrow>
         datetime_min \<le> now - hours (SESSION_TIMEOUT_HOURS cfg) \<and>
         now - hours (SESSION_TIMEOUT_HOURS cfg) \<le> datetime_max \<and>
         now - t < hours (SESSION_TIMEOUT_HOURS cfg)))"
proof (intro conjI impI)
  show "is_valid_session cfg now sid st \<longleftrightarrow>
      (\<exists>s sd. sid = PStr s \<and> s \<noteq> [] \<and> active_sessions st s = Some sd \<and>
              datetime_min \<le> now - hours (SESSION_TIMEOUT_HOURS cfg) \<and>
              now - hours (SESSION_TIMEOUT_HOURS cfg) \<le> datetime_max \<and>
              now - sd_last_activity sd < hours (SESSION_TIMEOUT_HOURS cfg))"
    by (rule is_valid_session_known)
next
  assume "is_valid_session_body cfg now sid st = Inl e"
  then show "\<not> is_valid_session cfg now sid st" by (simp add: is_valid_session_def)
next
  assume d: "SESSION_TIMEOUT_HOURS cfg = 24 \<and> 0 \<le> now \<and> now \<le> datetime_max"
  then show "datetime_min \<le> now - hours (SESSION_TIMEOUT_HOURS cfg)"
    by (simp add: datetime_min_def hours_def minutes_def seconds_def)
  from d show "now - hours (SESSION_TIMEOUT_HOURS cfg) \<le> datetime_max"
    by (simp add: hours_def minutes_def seconds_def)
next
  assume "s \<noteq> []"
  show "fst (create_session s t ip st) = s" by (simp add: create_session_def)
  show "is_valid_session cfg now (PStr s) (snd (create_session s t ip st)) \<longleftrightarrow>
         datetime_min \<le> now - hours (SESSION_TIMEOUT_HOURS cfg) \<and>
         now - hours (SESSION_TIMEOUT_HOURS cfg) \<le> datetime_max \<and>
         now - t < hours (SESSION_TIMEOUT_HOURS cfg)"
    using \<open>s \<noteq> []\<close> by (simp add: is_valid_session_known create_session_def)
qed

theorem is_valid_session_characterised_witness:
  "u ''s1'' \<noteq> [] \<and>
   is_valid_session_body (default_config []) 0 (PList [PStr (u ''s1'')]) empty_state = Inl TypeError \<and>
   \<not> is_valid_session (default_config []) 0 (PList [PStr (u ''s1'')]) empty_state \<and>
   is_valid_session (default_config []) 0 (PStr (u ''s1''))
     (snd (create_session (u ''s1'') 0 (PStr (u ''10.0.0.1'')) empty_state)) \<and>
   \<not> is_valid_session (default_config []) (hours 24) (PStr (u ''s1''))
     (snd (create_session (u ''s1'') 0 (PStr (u ''10.0.0.1'')) empty_state)) \<and>
   is_valid_session_body (default_config []\<lparr>SESSION_TIMEOUT_HOURS := 20000000\<rparr>) 0
     (PStr (u ''s1'')) (snd (create_session (u ''s1'') 0 (PStr (u ''10.0.0.1'')) empty_state)) =
     Inl OverflowError \<and>
   \<not> is_valid_session (default_config []\<lparr>SESSION_TIMEOUT_HOURS := 20000000\<rparr>) 0
     (PStr (u ''s1'')) (snd (create_session (u ''s1'') 0 (PStr (u ''10.0.0.1'')) empty_state))"
proof -
  have b1: "is_valid_session_body (default_config []) 0 (PList [PStr (u ''s1'')]) empty_state =
              Inl TypeError"
    by (simp add: is_valid_session_body_def)
  have b2: "is_valid_session_body (default_config []\<lparr>SESSION_TIMEOUT_HOURS := 20000000\<rparr>) 0
     (PStr (u ''s1'')) (snd (create_session (u ''s1'') 0 (PStr (u ''10.0.0.1'')) empty_state)) =
     Inl OverflowError"
    by (simp add: is_valid_session_body_def create_session_def empty_state_def u_def hours_def
        minutes_def seconds_def datetime_min_def)
  have ne: "u ''s1'' \<noteq> []" by (simp add: u_def)
  note a = is_valid_session_characterised [where s = "u ''s1''" and cfg = "default_config []"
      and now = 0 and t = 0 and ip = "PStr (u ''10.0.0.1'')" and st = empty_state
      and sid = "PList [PStr (u ''s1'')]" and e = TypeError]
  note b = is_valid_session_characterised [where s = "u ''s1''" and cfg = "default_config []"
      and now = "hours 24" and t = 0 and ip = "PStr (u ''10.0.0.1'')" and st = empty_state
      and sid = PNone and e = TypeError]
  note c = is_valid_session_characterised [where e = OverflowError
      and cfg = "default_config []\<lparr>SESSION_TIMEOUT_HOURS := 20000000\<rparr>" and now = 0
      and sid = "PStr (u ''s1'')"
      and st = "snd (create_session (u ''s1'') 0 (PStr (u ''10.0.0.1'')) empty_state)"]
  have 1: "\<not> is_valid_session (default_config []) 0 (PList [PStr (u ''s1'')]) empty_state"
    using a b1 by blast
  have 2: "is_valid_session (default_config []) 0 (PStr (u ''s1''))
     (snd (create_session (u ''s1'') 0 (PStr (u ''10.0.0.1'')) empty_state))"
    using a ne by (simp add: default_config_def hours_def minutes_def seconds_def
        datetime_min_def datetime_max_def)
  have 3: "\<not> is_valid_session (default_config []) (hours 24) (PStr (u ''s1''))
     (snd (create_session (u ''s1'') 0 (PStr (u ''10.0.0.1'')) empty_state))"
    using b ne by (simp add: default_config_def)
  have 4: "\<not> is_valid_session (default_config []\<lparr>SESSION_TIMEOUT_HOURS := 20000000\<rparr>) 0
     (PStr (u ''s1'')) (snd (create_session (u ''s1'') 0 (PStr (u ''10.0.0.1'')) empty_state))"
    using c b2 by blast
  show ?thesis using ne b1 b2 1 2 3 4 by blast
qed

text \<open>A touch restarts the timeout from the time of the touch.\<close>

lemma update_session_known:
  "active_sessions st s = Some sd \<Longrightarrow>
   update_session t (PStr s) st =
     (True, st\<lparr> active_sessions := (active_sessions st)(s \<mapsto>
               sd\<lparr> sd_last_activity := t, sd_message_count := sd_message_count sd + 1 \<rparr>) \<rparr>)"
  by (simp add: update_session_def)

lemma valid_after_update:
  "active_sessions st s = Some sd \<Longrightarrow> s \<noteq> [] \<Longrightarrow>
   is_valid_session cfg now (PStr s) (snd (update_session t (PStr s) st)) \<longleftrightarrow>
     datetime_min \<le> now - hours (SESSION_TIMEOUT_HOURS cfg) \<and>
     now - hours (SESSION_TIMEOUT_HOURS cfg) \<le> datetime_max \<and>
     now - t < hours (SESSION_TIMEOUT_HOURS cfg)"
  by (simp add: update_session_known is_valid_session_known)

section \<open>The tables on ASCII text\<close>

lemma agrees_ascii_tables: "agrees_on_ascii ascii_tables"
  by (simp add: agrees_on_ascii_def ascii_tables_def)

lemma ascii_lower:
  "agrees_on_ascii U \<Longrightarrow> \<forall>c\<in>set s. c < 128 \<Longrightarrow> str_lower U s = lower s"
  by (simp add: agrees_on_ascii_def)

lemma ascii_capitalize:
  "agrees_on_ascii U \<Longrightarrow> \<forall>c\<in>set s. c < 128 \<Longrightarrow> str_capitalize U s = capitalize s"
  by (simp add: agrees_on_ascii_def)

lemma ascii_word: "agrees_on_ascii U \<Longrightarrow> c < 128 \<Longrightarrow> re_word U c = is_word c"
  by (simp add: agrees_on_ascii_def)

section \<open>Properties of the name extraction\<close>

lemma re_search_leftmost:
  "re_search m s = Some g \<longleftrightarrow>
     (\<exists>i\<le>length s. m (drop i s) = Some g \<and> (\<forall>j<i. m (drop j s) = None))"
proof (induction s)
  case Nil
  show ?case by simp
next
  case (Cons c cs)
  show ?case
  proof (cases "m (c # cs)")
    case (Some r)
    have "(\<exists>i\<le>length (c # cs). m (drop i (c # cs)) = Some g \<and> (\<forall>j<i. m (drop j (c # cs)) = None))
            \<longleftrightarrow> r = g"
    proof
      assume "\<exists>i\<le>length (c # cs). m (drop i (c # cs)) = Some g \<and> (\<forall>j<i. m (drop j (c # cs)) = None)"
      then obtain i where i: "m (drop i (c # cs)) = Some g" "\<forall>j<i. m (drop j (c # cs)) = None"
        by blast
      have "i = 0"
      proof (rule ccontr)
        assume "i \<noteq> 0"
        then have "m (drop 0 (c # cs)) = None" using i(2) by blast
        then show False using Some by simp
      qed
      then show "r = g" using i(1) Some by simp
    next
      assume "r = g"
      then have "m (drop 0 (c # cs)) = Some g \<and> (\<forall>j<0. m (drop j (c # cs)) = None)"
        using Some by simp
      then show "\<exists>i\<le>length (c # cs). m (drop i (c # cs)) = Some g \<and> (\<forall>j<i. m (drop j (c # cs)) = None)"
        by blast
    qed
    then show ?thesis using Some by simp
  next
    case None
    have "(\<exists>i\<le>length (c # cs). m (drop i (c # cs)) = Some g \<and> (\<forall>j<i. m (drop j (c # cs)) = None))
            \<longleftrightarrow> (\<exists>i\<le>length cs. m (drop i cs) = Some g \<and> (\<forall>j<i. m (drop j cs) = None))"
    proof
      assume "\<exists>i\<le>length (c # cs). m (drop i (c # cs)) = Some g \<and> (\<forall>j<i. m (drop j (c # cs)) = None)"
      then obtain i where i: "i \<le> length (c # cs)" "m (drop i (c # cs)) = Some g"
        "\<forall>j<i. m (drop j (c # cs)) = None" by blast
      then obtain k where k: "i = Suc k" using None by (cases i) auto
      have "\<forall>j<k. m (drop j cs) = None"
      proof (intro allI impI)
        fix j assume "j < k"
        then have "m (drop (Suc j) (c # cs)) = None" using i(3) k by blast
        then show "m (drop j cs) = None" by simp
      qed
      then show "\<exists>i\<le>length cs. m (drop i cs) = Some g \<and> (\<forall>j<i. m (drop j cs) = None)"
        using i(1,2) k by auto
    next
      assume "\<exists>i\<le>length cs. m (drop i cs) = Some g \<and> (\<forall>j<i. m (drop j cs) = None)"
      then obtain i where i: "i \<le> length cs" "m (drop i cs) = Some g"
        "\<forall>j<i. m (drop j cs) = None" by blast
      have "\<forall>j<Suc i. m (drop j (c # cs)) = None"
      proof (intro allI impI)
        fix j assume "j < Suc i"
        then show "m (drop j (c # cs)) = None" using i(3) None by (cases j) auto
      qed
      then have "Suc i \<le> length (c # cs) \<and> m (drop (Suc i) (c # cs)) = Some g \<and>
                 (\<forall>j<Suc i. m (drop j (c # cs)) = None)" using i(1,2) by simp
      then show "\<exists>i\<le>length (c # cs). m (drop i (c # cs)) = Some g \<and> (\<forall>j<i. m (drop j (c # cs)) = None)"
        by blast
    qed
    then show ?thesis using None Cons.IH by simp
  qed
qed

lemma match_token_iff:
  assumes disjoint: "\<forall>c. is_space c \<longrightarrow> \<not> re_word U c"
  shows "match_token U t = Some g \<longleftrightarrow>
     (\<exists>ws rest. t = ws @ g @ rest \<and> ws \<noteq> [] \<and> (\<forall>c\<in>set ws. is_space c) \<and>
        g \<noteq> [] \<and> (\<forall>c\<in>set g. re_word U c) \<and> (rest = [] \<or> \<not> re_word U (hd rest)))"
proof
  assume "match_token U t = Some g"
  then have ws: "takeWhile is_space t \<noteq> []" and g: "g = takeWhile (re_word U) (dropWhile is_space t)"
    and gne: "g \<noteq> []"
    by (auto simp: match_token_def Let_def split: if_splits)
  let ?rest = "dropWhile (re_word U) (dropWhile is_space t)"
  have "t = takeWhile is_space t @ g @ ?rest" by (simp add: g)
  moreover have "\<forall>c\<in>set (takeWhile is_space t). is_space c" by (auto dest: set_takeWhileD)
  moreover have "\<forall>c\<in>set g. re_word U c" by (auto simp: g dest: set_takeWhileD)
  moreover have "?rest = [] \<or> \<not> re_word U (hd ?rest)"
    using hd_dropWhile [of "re_word U" "dropWhile is_space t"] by blast
  ultimately show "\<exists>ws rest. t = ws @ g @ rest \<and> ws \<noteq> [] \<and> (\<forall>c\<in>set ws. is_space c) \<and>
        g \<noteq> [] \<and> (\<forall>c\<in>set g. re_word U c) \<and> (rest = [] \<or> \<not> re_word U (hd rest))"
    using ws gne by blast
next
  assume "\<exists>ws rest. t = ws @ g @ rest \<and> ws \<noteq> [] \<and> (\<forall>c\<in>set ws. is_space c) \<and>
        g \<noteq> [] \<and> (\<forall>c\<in>set g. re_word U c) \<and> (rest = [] \<or> \<not> re_word U (hd rest))"
  then obtain ws rest where t: "t = ws @ g @ rest" and ws: "ws \<noteq> []" "\<forall>c\<in>set ws. is_space c"
    and g: "g \<noteq> []" "\<forall>c\<in>set g. re_word U c" and rest: "rest = [] \<or> \<not> re_word U (hd rest)"
    by blast
  obtain a g' where ga: "g = a # g'" using g(1) by (cases g) auto
  have na: "\<not> is_space a" using g(2) ga disjoint by auto
  have tw: "takeWhile is_space t = ws" using ws(2) na by (simp add: t ga takeWhile_append2)
  have dw: "dropWhile is_space t = g @ rest" using ws(2) na by (simp add: t ga dropWhile_append2)
  have "takeWhile (re_word U) (g @ rest) = g"
  proof (cases rest)
    case Nil
    then show ?thesis using g(2) by simp
  next
    case (Cons r rs)
    then show ?thesis using g(2) rest by (simp add: takeWhile_append2)
  qed
  then show "match_token U t = Some g" using tw dw ws(1) g(1) by (simp add: match_token_def)
qed

lemma name_phrases_one_prefix:
  "p \<in> set name_phrases \<Longrightarrow> q \<in> set name_phrases \<Longrightarrow> prefix p t \<Longrightarrow> prefix q t \<Longrightarrow> p = q"
  by (cases t; cases "tl t") (auto simp: name_phrases_def u_def)

lemma match_alternatives_iff_general:
  assumes "\<And>p q. p \<in> set ps \<Longrightarrow> q \<in> set ps \<Longrightarrow> prefix p t \<Longrightarrow> prefix q t \<Longrightarrow> p = q"
  shows "match_alternatives U ps t = Some g \<longleftrightarrow>
           (\<exists>p\<in>set ps. prefix p t \<and> match_token U (drop (length p) t) = Some g)"
  using assms
proof (induction ps)
  case Nil
  show ?case by simp
next
  case (Cons a ps)
  have ih: "match_alternatives U ps t = Some g \<longleftrightarrow>
           (\<exists>p\<in>set ps. prefix p t \<and> match_token U (drop (length p) t) = Some g)"
    using Cons.prems by (intro Cons.IH) auto
  show ?case
  proof (cases "prefix a t")
    case False
    then show ?thesis using ih by auto
  next
    case True
    have only: "\<And>p. p \<in> set ps \<Longrightarrow> prefix p t \<Longrightarrow> p = a"
      using Cons.prems True by auto
    show ?thesis
    proof (cases "match_token U (drop (length a) t)")
      case None
      then show ?thesis using True ih only by auto
    next
      case (Some w)
      then show ?thesis using True only by auto
    qed
  qed
qed

lemma phrase_then_token_iff:
  assumes disjoint: "\<forall>c. is_space c \<longrightarrow> \<not> re_word U c"
  shows "prefix p t \<and> match_token U (drop (length p) t) = Some g \<longleftrightarrow>
     (\<exists>ws rest. t = p @ ws @ g @ rest \<and> ws \<noteq> [] \<and> (\<forall>c\<in>set ws. is_space c) \<and>
        g \<noteq> [] \<and> (\<forall>c\<in>set g. re_word U c) \<and> (rest = [] \<or> \<not> re_word U (hd rest)))"
proof
  assume a: "prefix p t \<and> match_token U (drop (length p) t) = Some g"
  then obtain r where r: "t = p @ r" by (auto simp: prefix_def)
  then have "match_token U r = Some g" using a by simp
  then have "\<exists>ws rest. r = ws @ g @ rest \<and> ws \<noteq> [] \<and> (\<forall>c\<in>set ws. is_space c) \<and>
        g \<noteq> [] \<and> (\<forall>c\<in>set g. re_word U c) \<and> (rest = [] \<or> \<not> re_word U (hd rest))"
    by (rule iffD1 [OF match_token_iff [OF disjoint]])
  then obtain ws rest where "r = ws @ g @ rest" "ws \<noteq> []" "\<forall>c\<in>set ws. is_space c"
    "g \<noteq> []" "\<forall>c\<in>set g. re_word U c" "rest = [] \<or> \<not> re_word U (hd rest)"
    by blast
  then show "\<exists>ws rest. t = p @ ws @ g @ rest \<and> ws \<noteq> [] \<and> (\<forall>c\<in>set ws. is_space c) \<and>
        g \<noteq> [] \<and> (\<forall>c\<in>set g. re_word U c) \<and> (rest = [] \<or> \<not> re_word U (hd rest))"
    using r by blast
next
  assume "\<exists>ws rest. t = p @ ws @ g @ rest \<and> ws \<noteq> [] \<and> (\<forall>c\<in>set ws. is_space c) \<and>
        g \<noteq> [] \<and> (\<forall>c\<in>set g. re_word U c) \<and> (rest = [] \<or> \<not> re_word U (hd rest))"
  then obtain ws rest where t: "t = p @ ws @ g @ rest" and q: "ws \<noteq> []" "\<forall>c\<in>set ws. is_space c"
    "g \<noteq> []" "\<forall>c\<in>set g. re_word U c" "rest = [] \<or> \<not> re_word U (hd rest)" by blast
  have "match_token U (ws @ g @ rest) = Some g"
    by (rule iffD2 [OF match_token_iff [OF disjoint]]) (use q in blast)
  then show "prefix p t \<and> match_token U (drop (length p) t) = Some g" by (simp add: t)
qed

lemma name_match_here_iff:
  assumes disjoint: "\<forall>c. is_space c \<longrightarrow> \<not> re_word U c"
  shows "match_alternatives U name_phrases t = Some g \<longleftrightarrow>
     (\<exists>p\<in>set name_phrases. \<exists>ws rest. t = p @ ws @ g @ rest \<and> ws \<noteq> [] \<and>
        (\<forall>c\<in>set ws. is_space c) \<and> g \<noteq> [] \<and> (\<forall>c\<in>set g. re_word U c) \<and>
        (rest = [] \<or> \<not> re_word U (hd rest)))"
proof -
  have "match_alternatives U name_phrases t = Some g \<longleftrightarrow>
           (\<exists>p\<in>set name_phrases. prefix p t \<and> match_token U (drop (length p) t) = Some g)"
    by (rule match_alternatives_iff_general) (rule name_phrases_one_prefix)
  also have "\<dots> \<longleftrightarrow> (\<exists>p\<in>set name_phrases. \<exists>ws rest. t = p @ ws @ g @ rest \<and> ws \<noteq> [] \<and>
        (\<forall>c\<in>set ws. is_space c) \<and> g \<noteq> [] \<and> (\<forall>c\<in>set g. re_word U c) \<and>
        (rest = [] \<or> \<not> re_word U (hd rest)))"
    by (intro bex_cong refl phrase_then_token_iff [OF disjoint])
  finally show ?thesis .
qed

lemma known_name_update_context:
  "known_name (update_context U now sid msg reply ctxs) sid =
     (case name_match U (str_lower U msg) of
        Some g \<Rightarrow> Some (str_capitalize U g)
      | None \<Rightarrow> known_name ctxs sid)"
  by (simp add: update_context_def Let_def new_context_def known_name_def split: option.splits)

text \<open>
  The message \<open>I am Bob, call me Rob\<close> under any tables that treat ASCII as Python
  does: the code stores \<open>Bob\<close>, the patterns in their order give \<open>Rob\<close>.
\<close>

lemma bob_and_rob:
  assumes "agrees_on_ascii U"
  shows "known_name (update_context U 0 (u ''s1'') (u ''I am Bob, call me Rob'') (u ''ok'') Map.empty)
           (u ''s1'') = Some (u ''Bob'')"
    and "map_option (str_capitalize U)
           (spec_name_match U (str_lower U (u ''I am Bob, call me Rob''))) = Some (u ''Rob'')"
proof -
  have l: "str_lower U (u ''I am Bob, call me Rob'') = u ''i am bob, call me rob''"
    by (subst ascii_lower [OF assms]) (simp_all add: u_def lower_def lower_char_def)
  have m: "name_match U (u ''i am bob, call me rob'') = Some (u ''bob'')"
    by (simp add: name_match_def name_phrases_def match_token_def u_def is_space_def
        ascii_word [OF assms] is_word_def)
  have sm: "spec_name_match U (u ''i am bob, call me rob'') = Some (u ''rob'')"
    by (simp add: spec_name_match_def name_phrases_def match_token_def u_def is_space_def
        ascii_word [OF assms] is_word_def)
  have c: "str_capitalize U (u ''bob'') = u ''Bob''" "str_capitalize U (u ''rob'') = u ''Rob''"
    by (subst ascii_capitalize [OF assms];
        simp add: u_def capitalize_def upper_char_def lower_def lower_char_def)+
  show "known_name (update_context U 0 (u ''s1'') (u ''I am Bob, call me Rob'') (u ''ok'') Map.empty)
           (u ''s1'') = Some (u ''Bob'')"
    by (simp only: known_name_update_context l m option.case c)
  show "map_option (str_capitalize U)
           (spec_name_match U (str_lower U (u ''I am Bob, call me Rob''))) = Some (u ''Rob'')"
    by (simp only: l sm option.map c)
qed

text \<open>
  C6, as stated, fails: in a message with both phrases, \<open>i am\<close> first and \<open>call me\<close>
  after it, the code stores the name after \<open>i am\<close>, the leftmost match, where the order
  of the patterns would give the name after \<open>call me\<close>.
\<close>

theorem name_pattern_order_counterexample:
  "known_name
     (update_context ascii_tables 0 (u ''s1'') (u ''I am Bob, call me Rob'') (u ''ok'') Map.empty)
     (u ''s1'') = Some (u ''Bob'') \<and>
   map_option (str_capitalize ascii_tables)
     (spec_name_match ascii_tables (str_lower ascii_tables (u ''I am Bob, call me Rob''))) =
     Some (u ''Rob'')"
  using bob_and_rob [OF agrees_ascii_tables] by simp

text \<open>
  C6, amended. The four phrases are the alternatives of one expression, searched once
  over the lower-cased text: the match at the leftmost position wins, whichever phrase
  it starts with. At a position the expression matches when the text there is one of
  the phrases, then whitespace, then a word token that is not continued; the token is
  the group. On a match the capitalised token replaces the stored name, otherwise the
  stored name stays. This holds whatever Python's tables say of the characters, given
  only that no whitespace character is a word character.
\<close>

theorem name_extraction_leftmost:
  "known_name (update_context U now sid msg reply ctxs) sid =
     (case name_match U (str_lower U msg) of
        Some g \<Rightarrow> Some (str_capitalize U g)
      | None \<Rightarrow> known_name ctxs sid) \<and>
   (name_match U s = Some g \<longleftrightarrow>
      (\<exists>i\<le>length s. match_alternatives U name_phrases (drop i s) = Some g \<and>
         (\<forall>j<i. match_alternatives U name_phrases (drop j s) = None))) \<and>
   ((\<forall>c. is_space c \<longrightarrow> \<not> re_word U c) \<longrightarrow>
    (match_alternatives U name_phrases t = Some g \<longleftrightarrow>
      (\<exists>p\<in>set name_phrases. \<exists>ws rest. t = p @ ws @ g @ rest \<and> ws \<noteq> [] \<and>
         (\<forall>c\<in>set ws. is_space c) \<and> g \<noteq> [] \<and> (\<forall>c\<in>set g. re_word U c) \<and>
         (rest = [] \<or> \<not> re_word U (hd rest)))))"
proof (intro conjI impI)
  show "known_name (update_context U now sid msg reply ctxs) sid =
     (case name_match U (str_lower U msg) of
        Some g \<Rightarrow> Some (str_capitalize U g)
      | None \<Rightarrow> known_name ctxs sid)"
    by (rule known_name_update_context)
  show "name_match U s = Some g \<longleftrightarrow>
      (\<exists>i\<le>length s. match_alternatives U name_phrases (drop i s) = Some g \<and>
         (\<forall>j<i. match_alternatives U name_phrases (drop j s) = None))"
    by (simp add: name_match_def re_search_leftmost)
  assume "\<forall>c. is_space c \<longrightarrow> \<not> re_word U c"
  then show "match_alternatives U name_phrases t = Some g \<longleftrightarrow>
      (\<exists>p\<in>set name_phrases. \<exists>ws rest. t = p @ ws @ g @ rest \<and> ws \<noteq> [] \<and>
         (\<forall>c\<in>set ws. is_space c) \<and> g \<noteq> [] \<and> (\<forall>c\<in>set g. re_word U c) \<and>
         (rest = [] \<or> \<not> re_word U (hd rest)))"
    by (rule name_match_here_iff)
qed

theorem name_extraction_leftmost_witness:
  "name_match ascii_tables (str_lower ascii_tables (u ''Hi, I'm Al'')) = Some (u ''al'') \<and>
   known_name (update_context ascii_tables 0 (u ''s1'') (u ''Hi, I'm Al'') (u ''ok'') Map.empty)
     (u ''s1'') = Some (u ''Al'') \<and>
   (\<exists>i\<le>length (str_lower ascii_tables (u ''Hi, I'm Al'')).
      match_alternatives ascii_tables name_phrases
        (drop i (str_lower ascii_tables (u ''Hi, I'm Al''))) = Some (u ''al'') \<and>
      (\<forall>j<i. match_alternatives ascii_tables name_phrases
                (drop j (str_lower ascii_tables (u ''Hi, I'm Al''))) = None)) \<and>
   (\<exists>p\<in>set name_phrases. \<exists>ws rest. u ''i'm al'' = p @ ws @ u ''al'' @ rest \<and> ws \<noteq> [] \<and>
         (\<forall>c\<in>set ws. is_space c) \<and> u ''al'' \<noteq> [] \<and> (\<forall>c\<in>set (u ''al''). re_word ascii_tables c) \<and>
         (rest = [] \<or> \<not> re_word ascii_tables (hd rest)))"
proof -
  have m: "name_match ascii_tables (str_lower ascii_tables (u ''Hi, I'm Al'')) = Some (u ''al'')"
    by (simp add: ascii_tables_def name_match_def name_phrases_def match_token_def u_def lower_def
        lower_char_def is_space_def is_word_def)
  have c: "str_capitalize ascii_tables (u ''al'') = u ''Al''"
    by (simp add: ascii_tables_def capitalize_def upper_char_def lower_def lower_char_def u_def)
  have d: "\<forall>c. is_space c \<longrightarrow> \<not> re_word ascii_tables c"
    by (auto simp: ascii_tables_def is_space_def is_word_def)
  have h: "match_alternatives ascii_tables name_phrases (u ''i'm al'') = Some (u ''al'')"
    by (simp add: ascii_tables_def name_phrases_def match_token_def u_def is_space_def is_word_def)
  note inst = name_extraction_leftmost [where U = ascii_tables
      and s = "str_lower ascii_tables (u ''Hi, I'm Al'')" and g = "u ''al''"
      and msg = "u ''Hi, I'm Al''" and now = 0 and sid = "u ''s1''" and reply = "u ''ok''"
      and ctxs = Map.empty and t = "u ''i'm al''"]
  have k: "known_name (update_context ascii_tables 0 (u ''s1'') (u ''Hi, I'm Al'') (u ''ok'') Map.empty)
     (u ''s1'') = Some (u ''Al'')"
    using inst m c by simp
  have e: "\<exists>i\<le>length (str_lower ascii_tables (u ''Hi, I'm Al'')).
      match_alternatives ascii_tables name_phrases
        (drop i (str_lower ascii_tables (u ''Hi, I'm Al''))) = Some (u ''al'') \<and>
      (\<forall>j<i. match_alternatives ascii_tables name_phrases
                (drop j (str_lower ascii_tables (u ''Hi, I'm Al''))) = None)"
    using inst m by blast
  have f: "\<exists>p\<in>set name_phrases. \<exists>ws rest. u ''i'm al'' = p @ ws @ u ''al'' @ rest \<and> ws \<noteq> [] \<and>
         (\<forall>c\<in>set ws. is_space c) \<and> u ''al'' \<noteq> [] \<and> (\<forall>c\<in>set (u ''al''). re_word ascii_tables c) \<and>
         (rest = [] \<or> \<not> re_word ascii_tables (hd rest))"
    using inst d h by blast
  show ?thesis using m k e f by blast
qed

section \<open>Properties of the fallback responder\<close>

lemma contains_iff: "contains sub s \<longleftrightarrow> (\<exists>ps ss. s = ps @ sub @ ss)"
proof (induction s)
  case Nil
  show ?case by auto
next
  case (Cons c cs)
  show ?case
  proof
    assume "contains sub (c # cs)"
    then consider "prefix sub (c # cs)" | "contains sub cs" by auto
    then show "\<exists>ps ss. c # cs = ps @ sub @ ss"
    proof cases
      case 1
      then obtain ss where "c # cs = [] @ sub @ ss" by (auto simp: prefix_def)
      then show ?thesis by blast
    next
      case 2
      then obtain ps ss where "cs = ps @ sub @ ss" using Cons.IH by blast
      then have "c # cs = (c # ps) @ sub @ ss" by simp
      then show ?thesis by blast
    qed
  next
    assume "\<exists>ps ss. c # cs = ps @ sub @ ss"
    then obtain ps ss where e: "c # cs = ps @ sub @ ss" by blast
    show "contains sub (c # cs)"
    proof (cases ps)
      case Nil
      then have "prefix sub (c # cs)" using e by (simp add: prefix_def)
      then show ?thesis by simp
    next
      case (Cons a as)
      then have "cs = as @ sub @ ss" using e by simp
      then show ?thesis using Cons.IH by auto
    qed
  qed
qed

lemma contains_mid: "contains n (a @ n @ b)"
  unfolding contains_iff by blast

lemma fallback_depends_on_name:
  "known_name ctxs sid = known_name ctxs' sid' \<Longrightarrow>
   get_fallback_response U message sid ctxs = get_fallback_response U message sid' ctxs'"
  by (simp add: get_fallback_response_def)

lemma ada_known:
  assumes "agrees_on_ascii U"
  shows "known_name (update_context U now sid (u ''my name is Ada'') reply ctxs) sid =
           Some (u ''Ada'')"
proof -
  have l: "str_lower U (u ''my name is Ada'') = u ''my name is ada''"
    by (subst ascii_lower [OF assms]) (simp_all add: u_def lower_def lower_char_def)
  have m: "name_match U (u ''my name is ada'') = Some (u ''ada'')"
    by (simp add: name_match_def name_phrases_def match_token_def u_def is_space_def
        ascii_word [OF assms] is_word_def)
  have c: "str_capitalize U (u ''ada'') = u ''Ada''"
    by (subst ascii_capitalize [OF assms])
       (simp_all add: u_def capitalize_def upper_char_def lower_def lower_char_def)
  show ?thesis by (simp only: known_name_update_context l m option.case c)
qed

lemma lower_help:
  assumes "agrees_on_ascii U"
  shows "str_lower U (u ''help'') = u ''help''" and "str_lower U (u ''hello'') = u ''hello''"
    and "str_lower U (u ''Thanks a lot'') = u ''thanks a lot''"
  by (subst ascii_lower [OF assms]; simp add: u_def lower_def lower_char_def)+

lemma help_is_help:
  assumes "agrees_on_ascii U"
  shows "\<not> any_in greeting_words (str_lower U (u ''help'')) \<and>
         \<not> any_in status_words (str_lower U (u ''help'')) \<and>
         any_in help_words (str_lower U (u ''help''))"
  unfolding lower_help [OF assms]
  by (simp add: any_in_def greeting_words_def status_words_def help_words_def u_def)

text \<open>
  The reply to \<open>help\<close> after \<open>my name is Ada\<close>, under any tables that treat ASCII as
  Python does: the name is known and the reply does not contain it.
\<close>

lemma help_reply_without_name:
  assumes "agrees_on_ascii U"
  shows "known_name (update_context U 0 (u ''s1'') (u ''my name is Ada'') (u ''ok'') Map.empty)
           (u ''s1'') = Some (u ''Ada'')"
    and "\<not> contains (u ''Ada'')
           (rsp_text (get_fallback_response U (u ''help'') (u ''s1'')
              (update_context U 0 (u ''s1'') (u ''my name is Ada'') (u ''ok'') Map.empty)))"
proof -
  show "known_name (update_context U 0 (u ''s1'') (u ''my name is Ada'') (u ''ok'') Map.empty)
           (u ''s1'') = Some (u ''Ada'')" by (rule ada_known [OF assms])
  show "\<not> contains (u ''Ada'')
           (rsp_text (get_fallback_response U (u ''help'') (u ''s1'')
              (update_context U 0 (u ''s1'') (u ''my name is Ada'') (u ''ok'') Map.empty)))"
    using help_is_help [OF assms] by (simp add: get_fallback_response_def) (simp add: u_def)
qed

text \<open>
  C9, as stated, fails: with the name Ada known, the capability listing sent for
  \<open>help\<close> does not contain it.
\<close>

theorem fallback_help_without_name_counterexample:
  "known_name
     (update_context ascii_tables 0 (u ''s1'') (u ''my name is Ada'') (u ''ok'') Map.empty)
     (u ''s1'') = Some (u ''Ada'') \<and>
   \<not> contains (u ''Ada'')
       (rsp_text (get_fallback_response ascii_tables (u ''help'') (u ''s1'')
          (update_context ascii_tables 0 (u ''s1'') (u ''my name is Ada'') (u ''ok'') Map.empty)))"
  using help_reply_without_name [OF agrees_ascii_tables] by simp

lemma fallback_greeting:
  "any_in greeting_words (str_lower U message) \<Longrightarrow>
      rsp_text (get_fallback_response U message sid ctxs) =
        [128075] @ u '' Hello'' @ name_greeting_of (known_name ctxs sid) @
        u ''! I'm your AI assistant. How can I help you today?''"
  by (simp add: get_fallback_response_def Let_def)

lemma fallback_status:
  "\<not> any_in greeting_words (str_lower U message) \<and> any_in status_words (str_lower U message) \<Longrightarrow>
      rsp_text (get_fallback_response U message sid ctxs) =
        u ''I'm doing great'' @ name_greeting_of (known_name ctxs sid) @
        u ''! Ready to help. What would you like to know?''"
  by (simp add: get_fallback_response_def Let_def)

lemma fallback_help:
  "\<not> any_in greeting_words (str_lower U message) \<and> \<not> any_in status_words (str_lower U message) \<and> 
    any_in help_words (str_lower U message) \<Longrightarrow>
      rsp_text (get_fallback_response U message sid ctxs) =
        u ''I can help you with:\<newline>\<newline>'' @ [128218] @
        u '' Search Wikipedia for information\<newline>'' @ [128172] @
        u '' Answer questions\<newline>'' @ [129300] @
        u '' General conversation\<newline>\<newline>What would you like to explore?''"
  by (simp add: get_fallback_response_def Let_def)

lemma fallback_thanks:
  "\<not> any_in greeting_words (str_lower U message) \<and> \<not> any_in status_words (str_lower U message) \<and> 
    \<not> any_in help_words (str_lower U message) \<and> any_in thanks_words (str_lower U message) \<Longrightarrow>
      rsp_text (get_fallback_response U message sid ctxs) =
        u ''You're welcome'' @ name_greeting_of (known_name ctxs sid) @
        u ''! Happy to help anytime! '' @ [128522]"
  by (simp add: get_fallback_response_def Let_def)

lemma fallback_question:
  "\<not> any_in greeting_words (str_lower U message) \<and> \<not> any_in status_words (str_lower U message) \<and> 
    \<not> any_in help_words (str_lower U message) \<and> \<not> any_in thanks_words (str_lower U message) \<and> 
    contains (u ''?'') message \<Longrightarrow>
      rsp_text (get_fallback_response U message sid ctxs) =
        u ''That's an interesting question! Try asking about specific topics and I'll search Wikipedia for accurate information.''"
  by (simp add: get_fallback_response_def Let_def)

lemma fallback_default:
  "\<not> any_in greeting_words (str_lower U message) \<and> \<not> any_in status_words (str_lower U message) \<and> 
    \<not> any_in help_words (str_lower U message) \<and> \<not> any_in thanks_words (str_lower U message) \<and> 
    \<not> contains (u ''?'') message \<Longrightarrow>
      rsp_text (get_fallback_response U message sid ctxs) =
        u ''I understand'' @ name_greeting_of (known_name ctxs sid) @
        u ''! Feel free to ask me anything, especially factual topics I can research for you.''"
  by (simp add: get_fallback_response_def Let_def)

lemma fallback_source:
  "rsp_source (get_fallback_response U message sid ctxs) = u ''fallback''"
proof -
  consider (g) "any_in greeting_words (str_lower U message)"
    | (s) "\<not> any_in greeting_words (str_lower U message)" "any_in status_words (str_lower U message)"
    | (h) "\<not> any_in greeting_words (str_lower U message)" "\<not> any_in status_words (str_lower U message)"
          "any_in help_words (str_lower U message)"
    | (t) "\<not> any_in greeting_words (str_lower U message)" "\<not> any_in status_words (str_lower U message)"
          "\<not> any_in help_words (str_lower U message)" "any_in thanks_words (str_lower U message)"
    | (q) "\<not> any_in greeting_words (str_lower U message)" "\<not> any_in status_words (str_lower U message)"
          "\<not> any_in help_words (str_lower U message)" "\<not> any_in thanks_words (str_lower U message)"
          "contains (u ''?'') message"
    | (d) "\<not> any_in greeting_words (str_lower U message)" "\<not> any_in status_words (str_lower U message)"
          "\<not> any_in help_words (str_lower U message)" "\<not> any_in thanks_words (str_lower U message)"
          "\<not> contains (u ''?'') message"
    by blast
  then show ?thesis
    by cases (simp_all add: get_fallback_response_def Let_def)
qed

text \<open>
  C9, amended. The greeting, status, thanks and default replies are fixed texts around
  one slot; the slot holds a space and the known name, and is empty when no name, or
  an empty one, is known. The capability listing and the question prompt are fixed
  texts without the slot. The reply depends on the contexts only through the known
  name. After \<open>my name is Ada\<close> has been processed, a greeting reply contains \<open>Ada\<close>.
\<close>

theorem fallback_name_interpolation:
  "(known_name ctxs sid = Some n \<and> n \<noteq> [] \<longrightarrow>
      name_greeting_of (known_name ctxs sid) = u '' '' @ n) \<and>
   (known_name ctxs sid = None \<or> known_name ctxs sid = Some [] \<longrightarrow>
      name_greeting_of (known_name ctxs sid) = []) \<and>
   (any_in greeting_words (str_lower U message) \<longrightarrow>
      rsp_text (get_fallback_response U message sid ctxs) =
        [128075] @ u '' Hello'' @ name_greeting_of (known_name ctxs sid) @
        u ''! I'm your AI assistant. How can I help you today?'') \<and>
   (\<not> any_in greeting_words (str_lower U message) \<and> any_in status_words (str_lower U message) \<longrightarrow>
      rsp_text (get_fallback_response U message sid ctxs) =
        u ''I'm doing great'' @ name_greeting_of (known_name ctxs sid) @
        u ''! Ready to help. What would you like to know?'') \<and>
   (\<not> any_in greeting_words (str_lower U message) \<and> \<not> any_in status_words (str_lower U message) \<and> 
    any_in help_words (str_lower U message) \<longrightarrow>
      rsp_text (get_fallback_response U message sid ctxs) =
        u ''I can help you with:\<newline>\<newline>'' @ [128218] @
        u '' Search Wikipedia for information\<newline>'' @ [128172] @
        u '' Answer questions\<newline>'' @ [129300] @
        u '' General conversation\<newline>\<newline>What would you like to explore?'') \<and>
   (\<not> any_in greeting_words (str_lower U message) \<and> \<not> any_in status_words (str_lower U message) \<and> 
    \<not> any_in help_words (str_lower U message) \<and> any_in thanks_words (str_lower U message) \<longrightarrow>
      rsp_text (get_fallback_response U message sid ctxs) =
        u ''You're welcome'' @ name_greeting_of (known_name ctxs sid) @
        u ''! Happy to help anytime! '' @ [128522]) \<and>
   (\<not> any_in greeting_words (str_lower U message) \<and> \<not> any_in status_words (str_lower U message) \<and> 
    \<not> any_in help_words (str_lower U message) \<and> \<not> any_in thanks_words (str_lower U message) \<and> 
    contains (u ''?'') message \<longrightarrow>
      rsp_text (get_fallback_response U message sid ctxs) =
        u ''That's an interesting question! Try asking about specific topics and I'll search Wikipedia for accurate information.'') \<and>
   (\<not> any_in greeting_words (str_lower U message) \<and> \<not> any_in status_words (str_lower U message) \<and> 
    \<not> any_in help_words (str_lower U message) \<and> \<not> any_in thanks_words (str_lower U message) \<and> 
    \<not> contains (u ''?'') message \<longrightarrow>
      rsp_text (get_fallback_response U message sid ctxs) =
        u ''I understand'' @ name_greeting_of (known_name ctxs sid) @
        u ''! Feel free to ask me anything, especially factual topics I can research for you.'') \<and>
   rsp_source (get_fallback_response U message sid ctxs) = u ''fallback'' \<and>
   (known_name ctxs' sid' = known_name ctxs sid \<longrightarrow>
      get_fallback_response U message sid' ctxs' = get_fallback_response U message sid ctxs) \<and>
   (agrees_on_ascii U \<longrightarrow>
      contains (u ''Ada'')
        (rsp_text (get_fallback_response U (u ''hello'') sid'
           (update_context U now sid' (u ''my name is Ada'') reply ctxs'))))"
proof (intro conjI impI)
  show "name_greeting_of (known_name ctxs sid) = u '' '' @ n"
    if "known_name ctxs sid = Some n \<and> n \<noteq> []"
    using that by (simp add: name_greeting_of_def)
  show "name_greeting_of (known_name ctxs sid) = []"
    if "known_name ctxs sid = None \<or> known_name ctxs sid = Some []"
    using that by (auto simp: name_greeting_of_def)
  show "rsp_source (get_fallback_response U message sid ctxs) = u ''fallback''"
    by (rule fallback_source)
  show "get_fallback_response U message sid' ctxs' = get_fallback_response U message sid ctxs"
    if "known_name ctxs' sid' = known_name ctxs sid"
    using that by (rule fallback_depends_on_name)
  show "contains (u ''Ada'')
        (rsp_text (get_fallback_response U (u ''hello'') sid'
           (update_context U now sid' (u ''my name is Ada'') reply ctxs')))"
    if a: "agrees_on_ascii U"
  proof -
    have hello: "any_in greeting_words (str_lower U (u ''hello''))"
      unfolding lower_help [OF a] by (simp add: any_in_def greeting_words_def u_def)
    have "contains (u ''Ada'') ([128075] @ u '' Hello'' @ (u '' '' @ u ''Ada'') @
             u ''! I'm your AI assistant. How can I help you today?'')"
      unfolding contains_iff by (metis append.assoc)
    moreover have "name_greeting_of (Some (u ''Ada'')) = u '' '' @ u ''Ada''"
      by (simp add: name_greeting_of_def u_def)
    ultimately show ?thesis
      by (simp only: fallback_greeting [OF hello] ada_known [OF a])
  qed
  show "rsp_text (get_fallback_response U message sid ctxs) =
        [128075] @ u '' Hello'' @ name_greeting_of (known_name ctxs sid) @
        u ''! I'm your AI assistant. How can I help you today?''"
    if "any_in greeting_words (str_lower U message)"
    using that by (rule fallback_greeting)
  show "rsp_text (get_fallback_response U message sid ctxs) =
        u ''I'm doing great'' @ name_greeting_of (known_name ctxs sid) @
        u ''! Ready to help. What would you like to know?''"
    if "\<not> any_in greeting_words (str_lower U message) \<and> any_in status_words (str_lower U message)"
    using that by (rule fallback_status)
  show "rsp_text (get_fallback_response U message sid ctxs) =
        u ''I can help you with:\<newline>\<newline>'' @ [128218] @
        u '' Search Wikipedia for information\<newline>'' @ [128172] @
        u '' Answer questions\<newline>'' @ [129300] @
        u '' General conversation\<newline>\<newline>What would you like to explore?''"
    if "\<not> any_in greeting_words (str_lower U message) \<and> \<not> any_in status_words (str_lower U message) \<and> 
    any_in help_words (str_lower U message)"
    using that by (rule fallback_help)
  show "rsp_text (get_fallback_response U message sid ctxs) =
        u ''You're welcome'' @ name_greeting_of (known_name ctxs sid) @
        u ''! Happy to help anytime! '' @ [128522]"
    if "\<not> any_in greeting_words (str_lower U message) \<and> \<not> any_in status_words (str_lower U message) \<and> 
    \<not> any_in help_words (str_lower U message) \<and> any_in thanks_words (str_lower U message)"
    using that by (rule fallback_thanks)
  show "rsp_text (get_fallback_response U message sid ctxs) =
        u ''That's an interesting question! Try asking about specific topics and I'll search Wikipedia for accurate information.''"
    if "\<not> any_in greeting_words (str_lower U message) \<and> \<not> any_in status_words (str_lower U message) \<and> 
    \<not> any_in help_words (str_lower U message) \<and> \<not> any_in thanks_words (str_lower U message) \<and> 
    contains (u ''?'') message"
    using that by (rule fallback_question)
  show "rsp_text (get_fallback_response U message sid ctxs) =
        u ''I understand'' @ name_greeting_of (known_name ctxs sid) @
        u ''! Feel free to ask me anything, especially factual topics I can research for you.''"
    if "\<not> any_in greeting_words (str_lower U message) \<and> \<not> any_in status_words (str_lower U message) \<and> 
    \<not> any_in help_words (str_lower U message) \<and> \<not> any_in thanks_words (str_lower U message) \<and> 
    \<not> contains (u ''?'') message"
    using that by (rule fallback_default)
qed

theorem fallback_name_interpolation_witness:
  "known_name
     (update_context ascii_tables 0 (u ''s1'') (u ''my name is Ada'') (u ''ok'') Map.empty)
     (u ''s1'') = Some (u ''Ada'') \<and>
   u ''Ada'' \<noteq> [] \<and>
   any_in thanks_words (str_lower ascii_tables (u ''Thanks a lot'')) \<and>
   rsp_text (get_fallback_response ascii_tables (u ''Thanks a lot'') (u ''s1'')
     (update_context ascii_tables 0 (u ''s1'') (u ''my name is Ada'') (u ''ok'') Map.empty)) =
     u ''You're welcome'' @ u '' '' @ u ''Ada'' @ u ''! Happy to help anytime! '' @ [128522] \<and>
   rsp_text (get_fallback_response ascii_tables (u ''Thanks a lot'') (u ''s1'') Map.empty) =
     u ''You're welcome'' @ u ''! Happy to help anytime! '' @ [128522] \<and>
   contains (u ''Ada'')
     (rsp_text (get_fallback_response ascii_tables (u ''hello'') (u ''s1'')
        (update_context ascii_tables 0 (u ''s1'') (u ''my name is Ada'') (u ''ok'') Map.empty)))"
proof -
  let ?ctxs = "update_context ascii_tables 0 (u ''s1'') (u ''my name is Ada'') (u ''ok'') Map.empty"
  have h1: "known_name ?ctxs (u ''s1'') = Some (u ''Ada'')"
    by (rule ada_known [OF agrees_ascii_tables])
  have h2: "u ''Ada'' \<noteq> []" by (simp add: u_def)
  have h0: "known_name Map.empty (u ''s1'') = None" by (simp add: known_name_def)
  have h3: "\<not> any_in greeting_words (str_lower ascii_tables (u ''Thanks a lot'')) \<and>
            \<not> any_in status_words (str_lower ascii_tables (u ''Thanks a lot'')) \<and>
            \<not> any_in help_words (str_lower ascii_tables (u ''Thanks a lot'')) \<and>
            any_in thanks_words (str_lower ascii_tables (u ''Thanks a lot''))"
    unfolding lower_help [OF agrees_ascii_tables]
    by (simp add: any_in_def thanks_words_def help_words_def greeting_words_def status_words_def
        u_def)
  note a = fallback_name_interpolation [where U = ascii_tables and ctxs = ?ctxs
      and sid = "u ''s1''" and n = "u ''Ada''" and message = "u ''Thanks a lot''"
      and sid' = "u ''s1''" and ctxs' = Map.empty and now = 0 and reply = "u ''ok''"]
  note b = fallback_name_interpolation [where U = ascii_tables and ctxs = Map.empty
      and sid = "u ''s1''" and n = "u ''Ada''" and message = "u ''Thanks a lot''"]
  have s1: "name_greeting_of (known_name ?ctxs (u ''s1'')) = u '' '' @ u ''Ada''"
    using a h1 h2 by blast
  have s0: "name_greeting_of (known_name Map.empty (u ''s1'')) = []"
    using b h0 by blast
  have t1: "rsp_text (get_fallback_response ascii_tables (u ''Thanks a lot'') (u ''s1'') ?ctxs) =
     u ''You're welcome'' @ name_greeting_of (known_name ?ctxs (u ''s1'')) @
     u ''! Happy to help anytime! '' @ [128522]"
    using a h3 by blast
  have t0: "rsp_text (get_fallback_response ascii_tables (u ''Thanks a lot'') (u ''s1'') Map.empty) =
     u ''You're welcome'' @ name_greeting_of (known_name Map.empty (u ''s1'')) @
     u ''! Happy to help anytime! '' @ [128522]"
    using b h3 by blast
  have c: "contains (u ''Ada'')
     (rsp_text (get_fallback_response ascii_tables (u ''hello'') (u ''s1'') ?ctxs))"
    using a agrees_ascii_tables by blast
  have r1: "rsp_text (get_fallback_response ascii_tables (u ''Thanks a lot'') (u ''s1'') ?ctxs) =
     u ''You're welcome'' @ u '' '' @ u ''Ada'' @ u ''! Happy to help anytime! '' @ [128522]"
    by (simp only: t1 s1 append_assoc)
  have r0: "rsp_text (get_fallback_response ascii_tables (u ''Thanks a lot'') (u ''s1'') Map.empty) =
     u ''You're welcome'' @ u ''! Happy to help anytime! '' @ [128522]"
    by (simp only: t0 s0 append_Nil)
  show ?thesis using h1 h2 h3 c r1 r0 by blast
qed

section \<open>Properties of the router\<close>

text \<open>
  The message \<open>write code to sort a list\<close> is a code request and no knowledge query,
  under any tables that treat ASCII as Python does.
\<close>

lemma sort_request_is_code_request:
  assumes "agrees_on_ascii U"
  shows "\<not> is_wikipedia_query U (u ''write code to sort a list'') \<and>
         any_in code_keywords (str_lower U (u ''write code to sort a list''))"
proof -
  have l: "str_lower U (u ''write code to sort a list'') = u ''write code to sort a list''"
    by (subst ascii_lower [OF assms]) (simp_all add: u_def lower_def lower_char_def)
  show ?thesis
    unfolding is_wikipedia_query_def l
    by (simp add: question_words_def bounded_here_def boundary_def word_opt_def head_opt_def
        ascii_word [OF assms] is_word_def any_in_def code_keywords_def u_def)
qed

text \<open>
  C3, as stated, fails when the generative call fails: the reply to a code request is
  then an apology under the source \<open>gemini-code\<close>, not an envelope with the source
  \<open>error\<close>.
\<close>

theorem code_generation_failure_counterexample:
  "\<not> is_wikipedia_query ascii_tables (u ''write code to sort a list'') \<and>
   any_in code_keywords (str_lower ascii_tables (u ''write code to sort a list'')) \<and>
   generate_content failing_env (code_prompt (u ''write code to sort a list'')) = GenRaises \<and>
   rsp_source (get_response ascii_tables (default_config (u ''key'')) failing_env
                 (u ''write code to sort a list'') (u ''s1'') Map.empty) = u ''gemini-code'' \<and>
   u ''gemini-code'' \<noteq> u ''error''"
  using sort_request_is_code_request [OF agrees_ascii_tables]
  by (simp add: get_response_def get_gemini_code_response_def failing_env_def default_config_def)
     (simp add: u_def)

text \<open>
  C3, amended. For a message that is not a knowledge query and contains a code keyword:
  without the generative provider the reply is the error envelope saying that code
  generation requires AI setup; when the generative call raises, the reply is the
  \<open>Code Generated\<close> heading followed by an apology, under the source \<open>gemini-code\<close>;
  and the source of the reply is always one of these two, never the fallback's.
\<close>

theorem code_generation_routing:
  assumes "\<not> is_wikipedia_query U message" and "any_in code_keywords (str_lower U message)"
  shows "(\<not> GENAI_AVAILABLE e \<or> GOOGLE_API_KEY cfg = [] \<longrightarrow>
            get_response U cfg e message sid ctxs =
              \<lparr> rsp_text = u ''Code generation requires AI setup.'', rsp_source = u ''error'',
                rsp_emoji = [128187] \<rparr>) \<and>
         (GENAI_AVAILABLE e \<and> GOOGLE_API_KEY cfg \<noteq> [] \<and>
          generate_content e (code_prompt message) = GenRaises \<longrightarrow>
            get_response U cfg e message sid ctxs =
              \<lparr> rsp_text = u ''**Code Generated**\<newline>\<newline>'' @
                           u ''I couldn't generate code at this time.'',
                rsp_source = u ''gemini-code'', rsp_emoji = [128187] \<rparr>) \<and>
         (rsp_source (get_response U cfg e message sid ctxs) = u ''error'' \<or>
          rsp_source (get_response U cfg e message sid ctxs) = u ''gemini-code'') \<and>
         rsp_source (get_response U cfg e message sid ctxs) \<noteq> u ''fallback''"
proof -
  have r: "get_response U cfg e message sid ctxs = get_gemini_code_response cfg e message sid"
    using assms by (simp add: get_response_def)
  have ne: "u ''error'' \<noteq> u ''fallback''" "u ''gemini-code'' \<noteq> u ''fallback''"
    by (simp_all add: u_def)
  show ?thesis
    unfolding r using ne by (auto simp: get_gemini_code_response_def Let_def)
qed

theorem code_generation_routing_witness:
  "\<not> is_wikipedia_query ascii_tables (u ''write code to sort a list'') \<and>
   any_in code_keywords (str_lower ascii_tables (u ''write code to sort a list'')) \<and>
   \<not> GENAI_AVAILABLE unavailable_env \<and>
   rsp_source (get_response ascii_tables (default_config []) unavailable_env
                 (u ''write code to sort a list'') (u ''s1'') Map.empty) = u ''error''"
proof -
  note c = sort_request_is_code_request [OF agrees_ascii_tables]
  have a: "\<not> GENAI_AVAILABLE unavailable_env" by (simp add: unavailable_env_def)
  from code_generation_routing [OF c [THEN conjunct1] c [THEN conjunct2],
      where e = unavailable_env and cfg = "default_config []" and sid = "u ''s1''"
        and ctxs = Map.empty] a
  have "get_response ascii_tables (default_config []) unavailable_env
          (u ''write code to sort a list'') (u ''s1'') Map.empty =
        \<lparr> rsp_text = u ''Code generation requires AI setup.'', rsp_source = u ''error'',
          rsp_emoji = [128187] \<rparr>" by blast
  then show ?thesis using c a by simp
qed

section \<open>Properties of the knowledge lookup\<close>







section \<open>Properties of the formatter\<close>

lemma rsplit1_head_length: "length (rsplit1_head c s) \<le> length s"
proof (cases "c \<in> set s")
  case True
  have "length (tl (dropWhile (\<lambda>x. x \<noteq> c) (rev s))) \<le> length (rev s)"
    using length_dropWhile_le [of "\<lambda>x. x \<noteq> c" "rev s"] by simp
  then show ?thesis using True by (simp add: rsplit1_head_def)
next
  case False
  then show ?thesis by (simp add: rsplit1_head_def)
qed

lemma slice_to_length: "0 \<le> n \<Longrightarrow> length (slice_to n s) \<le> nat n"
  by (simp add: slice_to_def)

lemma format_loop_length:
  "current_length + length (concat (format_loop current_length ps)) \<le> max current_length 4002"
proof (induction ps arbitrary: current_length)
  case Nil
  show ?case by simp
next
  case (Cons para rest)
  show ?case
  proof (cases "current_length + length para > 4000")
    case over: True
    show ?thesis
    proof (cases "current_length < 3000")
      case True
      let ?remaining = "4000 - int current_length - 50"
      have "length (rsplit1_head 46 (slice_to ?remaining para)) \<le> nat ?remaining"
        using rsplit1_head_length [of 46 "slice_to ?remaining para"]
          slice_to_length [of ?remaining para] True by linarith
      then show ?thesis using over True by (simp add: u_def)
    next
      case False
      then show ?thesis using over by simp
    qed
  next
    case under: False
    show ?thesis
    proof (cases "current_length + length para + 2 \<ge> 3500")
      case True
      then show ?thesis using under by (simp add: u_def)
    next
      case False
      have "(current_length + length para + 2) +
              length (concat (format_loop (current_length + length para + 2) rest)) \<le>
            max (current_length + length para + 2) 4002" by (rule Cons.IH)
      then show ?thesis using under False by (simp add: u_def)
    qed
  qed
qed

text \<open>
  The length of a formatted response is at most the cap of 4000 plus the lengths of the
  heading and of the footer.
\<close>

lemma format_length_bound:
  assumes "format_comprehensive_response pg = Some r"
  shows "length r \<le> 4000 + length (heading (title pg)) + length footer"
proof -
  let ?h = "length (heading (title pg))"
  have r: "r = concat ([heading (title pg)] @ format_loop ?h (paragraphs (content pg)) @ [footer])"
    using assms by (simp add: format_comprehensive_response_def Let_def split: if_splits)
  have h: "2 \<le> ?h" by (simp add: heading_def u_def)
  have "?h + length (concat (format_loop ?h (paragraphs (content pg)))) \<le> max ?h 4002"
    by (rule format_loop_length)
  then show ?thesis using h by (simp add: r)
qed

text \<open>
  When the slice has a full stop, the truncated paragraph ends with the last full stop
  of the slice.
\<close>

lemma rsplit1_head_last:
  assumes "c \<in> set s"
  shows "\<exists>rest. s = rsplit1_head c s @ [c] @ rest \<and> c \<notin> set rest"
proof -
  let ?tw = "takeWhile (\<lambda>x. x \<noteq> c) (rev s)"
  let ?dw = "dropWhile (\<lambda>x. x \<noteq> c) (rev s)"
  have ne: "?dw \<noteq> []" using assms by (simp add: dropWhile_eq_Nil_conv)
  then have "hd ?dw = c" using hd_dropWhile [of "\<lambda>x. x \<noteq> c" "rev s"] by simp
  then have dw: "?dw = c # tl ?dw" using ne by (cases ?dw) auto
  have "rev s = ?tw @ ?dw" by simp
  then have "rev s = ?tw @ c # tl ?dw" using dw by simp
  then have "rev (rev s) = rev (?tw @ c # tl ?dw)" by (rule arg_cong)
  then have "s = rev (tl ?dw) @ [c] @ rev ?tw" by simp
  moreover have "c \<notin> set (rev ?tw)" by (auto dest: set_takeWhileD)
  ultimately show ?thesis using assms by (auto simp: rsplit1_head_def)
qed

lemma split_sep_absent:
  "sep \<noteq> [] \<Longrightarrow> hd sep \<notin> set s \<Longrightarrow> split_sep sep s = [s]"
proof (induction s)
  case Nil
  show ?case by (simp add: split_sep.simps)
next
  case (Cons c cs)
  have np: "\<not> prefix sep (c # cs)"
  proof
    assume "prefix sep (c # cs)"
    then have "hd sep = c" using Cons.prems(1) by (cases sep) auto
    then show False using Cons.prems(2) by simp
  qed
  have "split_sep sep cs = [cs]" using Cons by simp
  then show ?case using np by (subst split_sep.simps) simp
qed

lemma strip_id:
  "s \<noteq> [] \<Longrightarrow> \<not> is_space (hd s) \<Longrightarrow> \<not> is_space (last s) \<Longrightarrow> strip s = s"
proof -
  assume s: "s \<noteq> []" and h: "\<not> is_space (hd s)" and l: "\<not> is_space (last s)"
  have 1: "dropWhile is_space s = s" using s h by (cases s) auto
  obtain a as where r: "rev s = a # as" using s by (cases "rev s") auto
  then have "a = last s" using s by (metis hd_rev list.sel(1))
  then have "dropWhile is_space (a # as) = a # as" using l by simp
  then have 2: "dropWhile is_space (rev s) = rev s" by (simp only: r)
  show ?thesis by (simp add: strip_def 1 2)
qed

lemma rsplit1_head_absent: "c \<notin> set s \<Longrightarrow> rsplit1_head c s = s"
  by (simp add: rsplit1_head_def)

lemma last_concat_replicate:
  "0 < n \<Longrightarrow> w \<noteq> [] \<Longrightarrow> last (concat (replicate n w)) = last w"
proof (induction n)
  case 0
  then show ?case by simp
next
  case (Suc n)
  show ?case
  proof (cases "n = 0")
    case True
    then show ?thesis by simp
  next
    case False
    then have "concat (replicate n w) \<noteq> []" using Suc.prems(2) by (cases n) auto
    then show ?thesis using Suc False by simp
  qed
qed

lemma take_concat_replicate:
  "k < n \<Longrightarrow> r \<le> length w \<Longrightarrow>
   take (k * length w + r) (concat (replicate n w)) = concat (replicate k w) @ take r w"
proof (induction k arbitrary: n)
  case 0
  then obtain m where "n = Suc m" by (cases n) auto
  then show ?case using 0 by simp
next
  case (Suc k)
  then obtain m where n: "n = Suc m" and km: "k < m" by (cases n) auto
  have "take (Suc k * length w + r) (concat (replicate n w)) =
        w @ take (k * length w + r) (concat (replicate m w))"
    by (simp add: n add.assoc)
  then show ?case using Suc.IH [OF km Suc.prems(2)] by simp
qed

lemma wordy_set: "set wordy_paragraph = {119, 111, 114, 100, 32}"
  by (auto simp: wordy_paragraph_def u_def)

lemma wordy_length: "length wordy_paragraph = 4999"
  by (simp add: wordy_paragraph_def u_def length_concat sum_list_replicate)

lemma wordy_hd: "wordy_paragraph = 119 # tl wordy_paragraph"
  by (simp add: wordy_paragraph_def u_def)

lemma wordy_last: "last wordy_paragraph = 100"
proof -
  have "concat (replicate 999 (u '' word'')) \<noteq> []" by (simp add: u_def)
  then have "last wordy_paragraph = last (concat (replicate 999 (u '' word'')))"
    by (simp add: wordy_paragraph_def)
  also have "\<dots> = last (u '' word'')" by (rule last_concat_replicate) (simp_all add: u_def)
  finally show ?thesis by (simp add: u_def)
qed

lemma wordy_paragraphs: "paragraphs wordy_paragraph = [wordy_paragraph]"
proof -
  have sp: "split_sep (u ''\<newline>\<newline>'') wordy_paragraph = [wordy_paragraph]"
    by (rule split_sep_absent) (simp_all add: u_def wordy_set)
  have ne: "wordy_paragraph \<noteq> []" using wordy_length by auto
  have hd: "hd wordy_paragraph = 119" by (subst wordy_hd) simp
  have st: "strip wordy_paragraph = wordy_paragraph"
    by (rule strip_id [OF ne]) (simp_all add: hd wordy_last is_space_def)
  have pre: "\<not> prefix (u ''=='') wordy_paragraph" by (subst wordy_hd) (simp add: u_def)
  show ?thesis
    by (simp add: paragraphs_def sp st pre wordy_length ne)
qed

lemma wordy_take:
  "slice_to 3938 wordy_paragraph = u ''word'' @ concat (replicate 786 (u '' word'')) @ u '' wor''"
proof -
  have "take (786 * length (u '' word'') + 4) (concat (replicate 999 (u '' word''))) =
        concat (replicate 786 (u '' word'')) @ take 4 (u '' word'')"
    by (rule take_concat_replicate) (simp_all add: u_def)
  moreover have "786 * length (u '' word'') + 4 = 3934" by (simp add: u_def)
  ultimately have "take 3934 (concat (replicate 999 (u '' word''))) =
        concat (replicate 786 (u '' word'')) @ u '' wor''" by (simp add: u_def)
  then show ?thesis by (simp add: slice_to_def wordy_paragraph_def u_def)
qed

text \<open>
  C7. For a page whose one paragraph has a thousand words and no full stop, the
  formatter cuts the paragraph after 3938 characters, in the middle of a word, and puts
  a full stop after the fragment: the output ends \<open>word wor.\<close> before the footer.
\<close>

theorem format_cuts_mid_word:
  "format_comprehensive_response wordy_page =
     Some (heading (u ''Long'') @ u ''word'' @ concat (replicate 786 (u '' word'')) @
           u '' wor'' @ u ''.'' @ u ''\<newline>\<newline>'' @ footer)"
proof -
  have len: "length (heading (u ''Long'')) = 12" by (simp add: heading_def u_def)
  have nodot: "46 \<notin> set (slice_to 3938 wordy_paragraph)"
    using set_take_subset [of 3938 wordy_paragraph] by (auto simp: slice_to_def wordy_set)
  have fl: "format_loop 12 [wordy_paragraph] =
          [(u ''word'' @ concat (replicate 786 (u '' word'')) @ u '' wor'') @ u ''.'' @
           u ''\<newline>\<newline>'']"
    using rsplit1_head_absent [OF nodot] by (simp add: wordy_length wordy_take)
  have pg: "content wordy_page = wordy_paragraph" "title wordy_page = u ''Long''"
    by (simp_all add: wordy_page_def)
  show ?thesis
    by (simp add: format_comprehensive_response_def pg wordy_paragraphs len fl
        del: format_loop.simps)
qed

end
